theory Spec2Isabelle
  imports Main
begin

section \<open>Go runtime and standard library used by the sources\<close>

text \<open>
  A Go \<open>[]byte\<close> and a Go \<open>string\<close> are both byte sequences: \<open>string\<close> here
  (\<open>char\<close> is one byte). A run-time panic of the Go code (a slice or an index out of
  range, a nil dereference) is a value of \<open>panic\<close>, returned as \<open>Inl\<close>.
\<close>

datatype panic = IndexOutOfRange | NilDereference

type_synonym rune = nat

definition byte :: "char \<Rightarrow> nat" where
  "byte c = of_char c"

definition RuneError :: rune where
  "RuneError = 0xFFFD"

text \<open>
  \<open>utf8.DecodeRune\<close>: the first rune of the bytes and its width. Bytes that are not a
  valid, shortest-form UTF-8 encoding decode as \<open>(RuneError, 1)\<close>, empty input as
  \<open>(RuneError, 0)\<close>.
\<close>

definition contByte :: "nat \<Rightarrow> bool" where
  "contByte b = (0x80 \<le> b \<and> b \<le> 0xBF)"

fun DecodeRune :: "string \<Rightarrow> rune \<times> nat" where
  "DecodeRune [] = (RuneError, 0)"
| "DecodeRune (c0 # rest) =
    (let b0 = byte c0 in
     if b0 < 0x80 then (b0, 1)
     else if 0xC2 \<le> b0 \<and> b0 \<le> 0xDF then
       (case rest of
          c1 # _ \<Rightarrow>
            (let b1 = byte c1 in
             if contByte b1 then ((b0 mod 0x20) * 0x40 + b1 mod 0x40, 2)
             else (RuneError, 1))
        | _ \<Rightarrow> (RuneError, 1))
     else if 0xE0 \<le> b0 \<and> b0 \<le> 0xEF then
       (case rest of
          c1 # c2 # _ \<Rightarrow>
            (let b1 = byte c1; b2 = byte c2;
                 lo = (if b0 = 0xE0 then 0xA0 else 0x80);
                 hi = (if b0 = 0xED then 0x9F else 0xBF) in
             if lo \<le> b1 \<and> b1 \<le> hi \<and> contByte b2
             then ((b0 mod 0x10) * 0x1000 + (b1 mod 0x40) * 0x40 + b2 mod 0x40, 3)
             else (RuneError, 1))
        | _ \<Rightarrow> (RuneError, 1))
     else if 0xF0 \<le> b0 \<and> b0 \<le> 0xF4 then
       (case rest of
          c1 # c2 # c3 # _ \<Rightarrow>
            (let b1 = byte c1; b2 = byte c2; b3 = byte c3;
                 lo = (if b0 = 0xF0 then 0x90 else 0x80);
                 hi = (if b0 = 0xF4 then 0x8F else 0xBF) in
             if lo \<le> b1 \<and> b1 \<le> hi \<and> contByte b2 \<and> contByte b3
             then ((b0 mod 0x08) * 0x40000 + (b1 mod 0x40) * 0x1000
                    + (b2 mod 0x40) * 0x40 + b3 mod 0x40, 4)
             else (RuneError, 1))
        | _ \<Rightarrow> (RuneError, 1))
     else (RuneError, 1))"

text \<open>
  \<open>utf8.DecodeLastRune\<close>: steps back over at most three continuation bytes to the
  nearest rune start and decodes from there; the rune must end where the bytes end.
\<close>

definition RuneStart :: "char \<Rightarrow> bool" where
  "RuneStart c = (\<not> contByte (byte c))"

fun lastRuneStart :: "string \<Rightarrow> nat \<Rightarrow> nat \<Rightarrow> nat" where
  "lastRuneStart p lim start =
    (if RuneStart (p ! start) then start
     else (case start of 0 \<Rightarrow> 0 | Suc k \<Rightarrow> if k < lim then k else lastRuneStart p lim k))"

declare lastRuneStart.simps [simp del]

lemma lastRuneStart_le: "lastRuneStart p lim start \<le> start"
proof (induction start)
  case 0
  show ?case by (simp add: lastRuneStart.simps [of p lim 0])
next
  case (Suc k)
  then show ?case by (simp add: lastRuneStart.simps [of p lim "Suc k"])
qed

definition DecodeLastRune :: "string \<Rightarrow> rune \<times> nat" where
  "DecodeLastRune p =
    (let end = length p in
     if end = 0 then (RuneError, 0)
     else if byte (p ! (end - 1)) < 0x80 then (byte (p ! (end - 1)), 1)
     else if end = 1 then (RuneError, 1)
     else
       (let start = lastRuneStart p (end - 4) (end - 2);
            d = DecodeRune (drop start p) in
        if start + snd d \<noteq> end then (RuneError, 1) else d))"

text \<open>\<open>unicode.IsSpace\<close>: the Latin-1 spaces and the runes of the White_Space property.\<close>

definition IsSpace :: "rune \<Rightarrow> bool" where
  "IsSpace r =
    (r = 0x09 \<or> r = 0x0A \<or> r = 0x0B \<or> r = 0x0C \<or> r = 0x0D \<or> r = 0x20
     \<or> r = 0x85 \<or> r = 0xA0 \<or> r = 0x1680 \<or> (0x2000 \<le> r \<and> r \<le> 0x200A)
     \<or> r = 0x2028 \<or> r = 0x2029 \<or> r = 0x202F \<or> r = 0x205F \<or> r = 0x3000)"

lemma DecodeRune_width:
  "s \<noteq> [] \<Longrightarrow> 1 \<le> snd (DecodeRune s) \<and> snd (DecodeRune s) \<le> length s"
  by (cases s) (auto simp: Let_def split: list.splits)

text \<open>
  \<open>bytes.TrimSpace\<close> is \<open>TrimFunc(s, unicode.IsSpace)\<close> (its ASCII fast path computes the
  same slice): \<open>TrimLeftFunc\<close> drops leading space runes, \<open>TrimRightFunc\<close> trailing ones.
\<close>

function TrimLeftFunc :: "string \<Rightarrow> string" where
  "TrimLeftFunc s =
    (if s = [] then []
     else if IsSpace (fst (DecodeRune s)) then TrimLeftFunc (drop (snd (DecodeRune s)) s)
     else s)"
  by pat_completeness auto
termination
proof (relation "measure length")
  fix s :: string
  assume "s \<noteq> []"
  then show "(drop (snd (DecodeRune s)) s, s) \<in> measure length"
    using DecodeRune_width [of s] by (cases s) auto
qed simp

declare TrimLeftFunc.simps [simp del]

lemma DecodeLastRune_width:
  assumes "s \<noteq> []"
  shows "1 \<le> snd (DecodeLastRune s)"
proof -
  let ?start = "lastRuneStart s (length s - 4) (length s - 2)"
  let ?d = "DecodeRune (drop ?start s)"
  have "?start + snd ?d = length s \<Longrightarrow> 2 \<le> length s \<Longrightarrow> 1 \<le> snd ?d"
    using lastRuneStart_le [of s "length s - 4" "length s - 2"] by arith
  moreover have "length s \<noteq> 0"
    using assms by simp
  moreover have "length s \<noteq> 1 \<Longrightarrow> 2 \<le> length s"
    using assms by (cases s) (auto simp: Suc_le_eq)
  ultimately show ?thesis
    by (simp add: DecodeLastRune_def Let_def)
qed

definition lastRune :: "string \<Rightarrow> nat \<Rightarrow> rune \<times> nat" where
  "lastRune s i =
    (if byte (s ! (i - 1)) < 0x80 then (byte (s ! (i - 1)), 1) else DecodeLastRune (take i s))"

function lastIndexNotSpace :: "string \<Rightarrow> nat \<Rightarrow> nat option" where
  "lastIndexNotSpace s i =
    (if i = 0 \<or> length s < i then None
     else if IsSpace (fst (lastRune s i)) then lastIndexNotSpace s (i - snd (lastRune s i))
     else Some (i - snd (lastRune s i)))"
  by pat_completeness auto
termination
proof (relation "measure snd")
  fix s :: string and i :: nat
  assume a: "\<not> (i = 0 \<or> length s < i)"
  then have "take i s \<noteq> []" by auto
  from DecodeLastRune_width [OF this] a
  show "((s, i - snd (lastRune s i)), (s, i)) \<in> measure snd"
    by (auto simp: lastRune_def)
qed simp

declare lastIndexNotSpace.simps [simp del]

definition TrimRightFunc :: "string \<Rightarrow> string" where
  "TrimRightFunc s =
    (case lastIndexNotSpace s (length s) of
       None \<Rightarrow> []
     | Some i \<Rightarrow>
         if 0x80 \<le> byte (s ! i) then take (i + snd (DecodeRune (drop i s))) s
         else take (i + 1) s)"

definition TrimSpace :: "string \<Rightarrow> string" where
  "TrimSpace s = TrimRightFunc (TrimLeftFunc s)"

text \<open>\<open>bytes.IndexByte\<close>, \<open>bytes.Index\<close> (\<open>None\<close> is Go's -1) and \<open>bytes.HasPrefix\<close>.\<close>

fun IndexByte :: "string \<Rightarrow> char \<Rightarrow> nat option" where
  "IndexByte [] c = None"
| "IndexByte (x # xs) c = (if x = c then Some 0 else map_option Suc (IndexByte xs c))"

definition HasPrefix :: "string \<Rightarrow> string \<Rightarrow> bool" where
  "HasPrefix s p = (take (length p) s = p)"

fun Index :: "string \<Rightarrow> string \<Rightarrow> nat option" where
  "Index [] sep = (if sep = [] then Some 0 else None)"
| "Index (x # xs) sep =
    (if HasPrefix (x # xs) sep then Some 0 else map_option Suc (Index xs sep))"

text \<open>Checked slicing and indexing: Go panics where HOL's \<open>drop\<close> and \<open>!\<close> would not.\<close>

definition sliceFrom :: "'a list \<Rightarrow> nat \<Rightarrow> panic + 'a list" where
  "sliceFrom xs n = (if n \<le> length xs then Inr (drop n xs) else Inl IndexOutOfRange)"

definition at :: "'a list \<Rightarrow> nat \<Rightarrow> panic + 'a" where
  "at xs n = (if n < length xs then Inr (xs ! n) else Inl IndexOutOfRange)"

section \<open>ModulePath\<close>

definition slashSlash :: string where
  "slashSlash = ''//''"

definition moduleStr :: string where
  "moduleStr = ''module''"

definition newline :: char where
  "newline = CHR 0x0A"

text \<open>
  One turn of the loop of \<open>ModulePath\<close> first cuts the text at the first newline:
  the line, and what is left for the next turns.
\<close>

definition cutLine :: "string \<Rightarrow> string \<times> string" where
  "cutLine m =
    (case IndexByte m newline of
       Some i \<Rightarrow> (take i m, drop (i + 1) m)
     | None \<Rightarrow> (m, []))"

definition stripComment :: "string \<Rightarrow> string" where
  "stripComment line = (case Index line slashSlash of Some i \<Rightarrow> take i line | None \<Rightarrow> line)"

lemma IndexByte_le: "IndexByte m c = Some i \<Longrightarrow> i < length m"
  by (induction m arbitrary: i) (auto split: if_splits)

lemma cutLine_shorter: "m \<noteq> [] \<Longrightarrow> length (snd (cutLine m)) < length m"
  by (auto simp: cutLine_def dest: IndexByte_le split: option.splits)

text \<open>
  \<open>strconv.Unquote\<close> is a parameter \<open>unq\<close>: \<open>None\<close> is its error return. The body
  follows the source statement by statement; \<open>line[len(moduleStr):]\<close> and \<open>line[0]\<close>
  are the checked operations, so a panic there would be a result \<open>Inl\<close>.
\<close>

function ModulePath :: "(string \<Rightarrow> string option) \<Rightarrow> string \<Rightarrow> panic + string" where
  "ModulePath unq m =
    (if m = [] then Inr []
     else
       (let line = TrimSpace (stripComment (fst (cutLine m)));
            m' = snd (cutLine m) in
        if \<not> HasPrefix line moduleStr then ModulePath unq m'
        else
          (case sliceFrom line (length moduleStr) of
             Inl e \<Rightarrow> Inl e
           | Inr rest \<Rightarrow>
               (let n = length rest; arg = TrimSpace rest in
                if length arg = n \<or> length arg = 0 then ModulePath unq m'
                else
                  (case at arg 0 of
                     Inl e \<Rightarrow> Inl e
                   | Inr c \<Rightarrow>
                       if c = CHR 0x22 \<or> c = CHR 0x60 then
                         (case unq arg of None \<Rightarrow> Inr [] | Some p \<Rightarrow> Inr p)
                       else Inr arg)))))"
  by pat_completeness auto
termination
  by (relation "measure (\<lambda>(unq, m). length m)") (auto simp: cutLine_shorter)

text \<open>
  The reading of the result, in the words of the documentation: the lines of the text, the
  first of them that is a module line, and the argument of that line.
\<close>

function linesOf :: "string \<Rightarrow> string list" where
  "linesOf m = (if m = [] then [] else fst (cutLine m) # linesOf (snd (cutLine m)))"
  by pat_completeness auto
termination
  by (relation "measure length") (auto simp: cutLine_shorter)

definition cleanLine :: "string \<Rightarrow> string" where
  "cleanLine l = TrimSpace (stripComment l)"

definition afterModule :: "string \<Rightarrow> string" where
  "afterModule l = drop (length moduleStr) (cleanLine l)"

definition isModuleLine :: "string \<Rightarrow> bool" where
  "isModuleLine l =
    (HasPrefix (cleanLine l) moduleStr
     \<and> length (TrimSpace (afterModule l)) \<noteq> length (afterModule l)
     \<and> TrimSpace (afterModule l) \<noteq> [])"

definition moduleArg :: "(string \<Rightarrow> string option) \<Rightarrow> string \<Rightarrow> string" where
  "moduleArg unq l =
    (let arg = TrimSpace (afterModule l) in
     if hd arg = CHR 0x22 \<or> hd arg = CHR 0x60
     then (case unq arg of None \<Rightarrow> [] | Some p \<Rightarrow> p)
     else arg)"

lemma HasPrefix_length: "HasPrefix s p \<Longrightarrow> length p \<le> length s"
  by (metis HasPrefix_def length_take min.cobounded1)

declare ModulePath.simps [simp del] linesOf.simps [simp del]

text \<open>
  C10: \<open>ModulePath\<close> is total and never panics (the result is always \<open>Inr\<close>): it
  returns the argument of the first line that, once its \<open>//\<close> comment is cut and it is
  trimmed, begins with \<open>module\<close> followed by white space and a non-empty argument. A
  quoted argument is unquoted; the result is the empty string when the quoted argument is
  malformed and when there is no such line.
\<close>

theorem ModulePath_spec:
  "ModulePath unq m =
    Inr (case find isModuleLine (linesOf m) of None \<Rightarrow> [] | Some l \<Rightarrow> moduleArg unq l)"
proof (induction unq m rule: ModulePath.induct)
  case (1 unq m)
  show ?case
  proof (cases "m = []")
    case True
    then show ?thesis
      by (simp add: ModulePath.simps [of unq "[]"] linesOf.simps [of "[]"])
  next
    case False
    define l where "l = fst (cutLine m)"
    define m' where "m' = snd (cutLine m)"
    define c where "c = TrimSpace (stripComment l)"
    define rest where "rest = drop (length moduleStr) c"
    define arg where "arg = TrimSpace rest"
    have lines: "linesOf m = l # linesOf m'"
      using False by (simp add: linesOf.simps [of m] l_def m'_def)
    have isml: "isModuleLine l = (HasPrefix c moduleStr \<and> length arg \<noteq> length rest \<and> arg \<noteq> [])"
      by (simp add: isModuleLine_def afterModule_def cleanLine_def c_def rest_def arg_def)
    have marg: "moduleArg unq l =
        (if hd arg = CHR 0x22 \<or> hd arg = CHR 0x60
         then (case unq arg of None \<Rightarrow> [] | Some p \<Rightarrow> p) else arg)"
      by (simp add: moduleArg_def afterModule_def cleanLine_def c_def rest_def arg_def)
    have step: "ModulePath unq m =
        (if \<not> HasPrefix c moduleStr then ModulePath unq m'
         else case sliceFrom c (length moduleStr) of
           Inl e \<Rightarrow> Inl e
         | Inr r \<Rightarrow>
            if length (TrimSpace r) = length r \<or> length (TrimSpace r) = 0 then ModulePath unq m'
            else case at (TrimSpace r) 0 of
              Inl e \<Rightarrow> Inl e
            | Inr ch \<Rightarrow>
                if ch = CHR 0x22 \<or> ch = CHR 0x60 then
                  (case unq (TrimSpace r) of None \<Rightarrow> Inr [] | Some p \<Rightarrow> Inr p)
                else Inr (TrimSpace r))"
      using False unfolding c_def l_def m'_def
      by (subst ModulePath.simps) (simp add: Let_def split: sum.splits)
    show ?thesis
    proof (cases "HasPrefix c moduleStr")
      case np: False
      have "ModulePath unq m' =
          Inr (case find isModuleLine (linesOf m') of None \<Rightarrow> [] | Some l \<Rightarrow> moduleArg unq l)"
        using "1.IH"(1) [OF False refl refl] np unfolding c_def l_def m'_def by simp
      with np show ?thesis
        by (simp add: step lines isml)
    next
      case pre: True
      have sl: "sliceFrom c (length moduleStr) = Inr rest"
        using HasPrefix_length [OF pre] by (simp add: sliceFrom_def rest_def)
      show ?thesis
      proof (cases "length arg = length rest \<or> length arg = 0")
        case skip: True
        have "ModulePath unq m' =
            Inr (case find isModuleLine (linesOf m') of None \<Rightarrow> [] | Some l \<Rightarrow> moduleArg unq l)"
          using "1.IH"(2) [OF False refl refl _ sl [unfolded c_def l_def] refl refl] pre skip
          unfolding c_def l_def m'_def arg_def by simp
        moreover have "\<not> isModuleLine l"
          using skip by (auto simp: isml)
        moreover have "ModulePath unq m = ModulePath unq m'"
          using pre skip by (simp add: step sl arg_def)
        ultimately show ?thesis
          by (simp add: lines)
      next
        case found: False
        then have ne: "arg \<noteq> []" by simp
        have at0: "at arg 0 = Inr (hd arg)"
          using ne by (cases arg) (simp_all add: at_def)
        have "isModuleLine l"
          using pre found by (simp add: isml)
        moreover have "ModulePath unq m = Inr (moduleArg unq l)"
          using pre found at0 unfolding marg
          by (simp add: step sl arg_def [symmetric] split: option.splits)
        ultimately show ?thesis
          by (simp add: lines)
      qed
    qed
  qed
qed

theorem ModulePath_spec_witness:
  "ModulePath (\<lambda>_. None)
     (''// a comment'' @ [newline] @ ''modulex y'' @ [newline]
       @ ''  module  gno.land/p/demo/avl // x'' @ [newline] @ ''module other'')
   = Inr ''gno.land/p/demo/avl''"
  unfolding ModulePath_spec
  by (simp add: byte_def IsSpace_def TrimSpace_def TrimRightFunc_def lastRune_def
      slashSlash_def HasPrefix_def isModuleLine_def moduleArg_def afterModule_def cleanLine_def
      linesOf.simps cutLine_def stripComment_def moduleStr_def newline_def DecodeLastRune_def
      TrimLeftFunc.simps lastIndexNotSpace.simps)

section \<open>mod why\<close>

text \<open>\<open>strings.HasSuffix\<close> and \<open>filepath.Ext\<close> (the suffix from the last dot of the last
  path element, empty when there is none).\<close>

definition HasSuffix :: "string \<Rightarrow> string \<Rightarrow> bool" where
  "HasSuffix s suffix =
    (length suffix \<le> length s \<and> drop (length s - length suffix) s = suffix)"

fun Ext_scan :: "string \<Rightarrow> string \<Rightarrow> string" where
  "Ext_scan [] acc = []"
| "Ext_scan (c # cs) acc =
    (if c = CHR ''/'' then [] else if c = CHR ''.'' then c # acc else Ext_scan cs (c # acc))"

definition Ext :: "string \<Rightarrow> string" where
  "Ext path = Ext_scan (rev path) []"

text \<open>
  \<open>fmt.Sprintf("(module %s does not need package %s)\n", modulePath, arg)\<close>.
\<close>

definition notNeeded :: "string \<Rightarrow> string \<Rightarrow> string" where
  "notNeeded modulePath arg =
    ''(module '' @ modulePath @ '' does not need package '' @ arg @ '')'' @ [newline]"

fun appendFiles :: "string list \<Rightarrow> string \<Rightarrow> string" where
  "appendFiles [] out = out"
| "appendFiles (file # files) out = appendFiles files (out @ file @ [newline])"

text \<open>
  The loop of \<open>formatModWhyStanzas\<close> over \<open>args\<close>: \<open>n\<close> is \<open>len(args)\<close>, \<open>i\<close> the index,
  \<open>out\<close> the output so far. A Go map is a partial function; a key bound to a nil slice is
  \<open>Some []\<close>.
\<close>

fun formatModWhyStanzas_loop ::
  "string \<Rightarrow> (string \<rightharpoonup> string list) \<Rightarrow> int \<Rightarrow> int \<Rightarrow> string list \<Rightarrow> string \<Rightarrow> string" where
  "formatModWhyStanzas_loop modulePath m n i [] out = out"
| "formatModWhyStanzas_loop modulePath m n i (arg # args) out =
    (let out1 = out @ ''# '' @ arg @ [newline];
         out2 = (case m arg of
                   None \<Rightarrow> out1 @ notNeeded modulePath arg
                 | Some files \<Rightarrow> appendFiles files out1);
         out3 = (if i < n - 1 then out2 @ [newline] else out2)
     in formatModWhyStanzas_loop modulePath m n (i + 1) args out3)"

definition formatModWhyStanzas ::
  "string \<Rightarrow> string list \<Rightarrow> (string \<rightharpoonup> string list) \<Rightarrow> string" where
  "formatModWhyStanzas modulePath args importToFilesMap =
    formatModWhyStanzas_loop modulePath importToFilesMap (int (length args)) 0 args []"

text \<open>
  What \<open>getImportToFilesMap\<close> calls outside this file: \<open>os.ReadDir\<close> (the names of the
  entries, in directory order), \<open>filepath.Join\<close> and \<open>load.GetGnoFileImports\<close>. They are the
  fields of the environment; \<open>Inl\<close> is an error return.
\<close>

record 'e environment =
  ReadDir :: "string \<Rightarrow> 'e + string list"
  Join :: "string \<Rightarrow> string \<Rightarrow> string"
  GetGnoFileImports :: "string \<Rightarrow> 'e + string list"

fun appendImports ::
  "string list \<Rightarrow> string \<Rightarrow> (string \<rightharpoonup> string list) \<Rightarrow> (string \<rightharpoonup> string list)" where
  "appendImports [] filename m = m"
| "appendImports (imp # imps) filename m =
    appendImports imps filename
      (m(imp \<mapsto> (case m imp of None \<Rightarrow> [] | Some files \<Rightarrow> files) @ [filename]))"

fun getImportToFilesMap_loop ::
  "'e environment \<Rightarrow> string \<Rightarrow> string list \<Rightarrow> (string \<rightharpoonup> string list)
    \<Rightarrow> 'e + (string \<rightharpoonup> string list)" where
  "getImportToFilesMap_loop env pkgPath [] m = Inr m"
| "getImportToFilesMap_loop env pkgPath (filename # entries) m =
    (if Ext filename \<noteq> ''.gno'' then getImportToFilesMap_loop env pkgPath entries m
     else if HasSuffix filename ''_filetest.gno''
     then getImportToFilesMap_loop env pkgPath entries m
     else
       (case GetGnoFileImports env (Join env pkgPath filename) of
          Inl err \<Rightarrow> Inl err
        | Inr imps \<Rightarrow>
            getImportToFilesMap_loop env pkgPath entries (appendImports imps filename m)))"

definition getImportToFilesMap ::
  "'e environment \<Rightarrow> string \<Rightarrow> 'e + (string \<rightharpoonup> string list)" where
  "getImportToFilesMap env pkgPath =
    (case ReadDir env pkgPath of
       Inl err \<Rightarrow> Inl err
     | Inr entries \<Rightarrow> getImportToFilesMap_loop env pkgPath entries Map.empty)"

text \<open>
  The reading of the output: the files that count for \<open>mod why\<close>, the importers of a path
  among the entries of the directory (a file once for each time its import list names the
  path), the stanza of one argument, and the stanzas separated by blank lines.
\<close>

definition isWhyFile :: "string \<Rightarrow> bool" where
  "isWhyFile filename = (Ext filename = ''.gno'' \<and> \<not> HasSuffix filename ''_filetest.gno'')"

definition occurrences :: "'e environment \<Rightarrow> string \<Rightarrow> string \<Rightarrow> string \<Rightarrow> string list" where
  "occurrences env pkgPath imp filename =
    (case GetGnoFileImports env (Join env pkgPath filename) of
       Inl err \<Rightarrow> []
     | Inr imps \<Rightarrow> map (\<lambda>_. filename) (filter (\<lambda>i. i = imp) imps))"

definition importers :: "'e environment \<Rightarrow> string \<Rightarrow> string list \<Rightarrow> string \<Rightarrow> string list" where
  "importers env pkgPath entries imp =
    concat (map (occurrences env pkgPath imp) (filter isWhyFile entries))"

definition whyStanza :: "string \<Rightarrow> (string \<Rightarrow> string list) \<Rightarrow> string \<Rightarrow> string" where
  "whyStanza modulePath files arg =
    ''# '' @ arg @ [newline]
    @ (if files arg = [] then notNeeded modulePath arg
       else concat (map (\<lambda>file. file @ [newline]) (files arg)))"

fun joinStanzas :: "string list \<Rightarrow> string" where
  "joinStanzas [] = []"
| "joinStanzas [s] = s"
| "joinStanzas (s # ss) = s @ [newline] @ joinStanzas ss"

definition extendFiles :: "string list option \<Rightarrow> string list \<Rightarrow> string list option" where
  "extendFiles old new =
    (if new = [] then old else Some ((case old of None \<Rightarrow> [] | Some files \<Rightarrow> files) @ new))"

lemma appendFiles_eq: "appendFiles files out = out @ concat (map (\<lambda>file. file @ [newline]) files)"
  by (induction files arbitrary: out) simp_all

lemma appendImports_lookup:
  "appendImports imps filename m imp =
    extendFiles (m imp) (map (\<lambda>_. filename) (filter (\<lambda>i. i = imp) imps))"
  by (induction imps arbitrary: m) (auto simp: extendFiles_def split: option.splits)

lemma extendFiles_append: "extendFiles (extendFiles old xs) ys = extendFiles old (xs @ ys)"
  by (auto simp: extendFiles_def split: option.splits)

lemma getImportToFilesMap_loop_lookup:
  "getImportToFilesMap_loop env pkgPath entries m = Inr m'
    \<Longrightarrow> m' imp = extendFiles (m imp) (importers env pkgPath entries imp)"
proof (induction entries arbitrary: m)
  case Nil
  then show ?case by (simp add: importers_def extendFiles_def)
next
  case (Cons filename entries)
  show ?case
  proof (cases "isWhyFile filename")
    case False
    with Cons show ?thesis
      by (auto simp: importers_def isWhyFile_def split: if_splits)
  next
    case True
    with Cons.prems obtain imps where
      imps: "GetGnoFileImports env (Join env pkgPath filename) = Inr imps"
      and rest: "getImportToFilesMap_loop env pkgPath entries (appendImports imps filename m) = Inr m'"
      by (auto simp: isWhyFile_def split: sum.splits)
    have "m' imp = extendFiles (appendImports imps filename m imp) (importers env pkgPath entries imp)"
      by (rule Cons.IH [OF rest])
    also have "\<dots> = extendFiles (m imp) (occurrences env pkgPath imp filename @ importers env pkgPath entries imp)"
      by (simp add: appendImports_lookup extendFiles_append occurrences_def imps)
    finally show ?thesis
      using True by (simp add: importers_def)
  qed
qed

lemma getImportToFilesMap_lookup:
  assumes "ReadDir env pkgPath = Inr entries"
    and "getImportToFilesMap env pkgPath = Inr m"
  shows "m imp = (if importers env pkgPath entries imp = [] then None
                  else Some (importers env pkgPath entries imp))"
  using assms getImportToFilesMap_loop_lookup [of env pkgPath entries Map.empty m imp]
  by (simp add: getImportToFilesMap_def extendFiles_def)

lemma joinStanzas_Cons:
  "joinStanzas (s # ss) = s @ (if ss = [] then [] else newline # joinStanzas ss)"
  by (cases ss) simp_all

lemma formatModWhyStanzas_loop_eq:
  assumes "\<And>arg. m arg = (if files arg = [] then None else Some (files arg))"
  shows "n = i + int (length args) \<Longrightarrow>
    formatModWhyStanzas_loop modulePath m n i args out
      = out @ joinStanzas (map (whyStanza modulePath files) args)"
proof (induction args arbitrary: i out)
  case Nil
  then show ?case by simp
next
  case (Cons arg args)
  have last: "(i < n - 1) = (args \<noteq> [])"
    using Cons.prems by auto
  have "formatModWhyStanzas_loop modulePath m n i (arg # args) out
      = formatModWhyStanzas_loop modulePath m n (i + 1) args
          (out @ whyStanza modulePath files arg @ (if args = [] then [] else [newline]))"
    unfolding formatModWhyStanzas_loop.simps Let_def last
    by (simp add: assms whyStanza_def appendFiles_eq)
  also have "\<dots> = (out @ whyStanza modulePath files arg @ (if args = [] then [] else [newline]))
      @ joinStanzas (map (whyStanza modulePath files) args)"
    using Cons.prems by (intro Cons.IH) simp
  finally show ?case
    by (simp add: joinStanzas_Cons)
qed

text \<open>
  C9: the output of \<open>mod why\<close>, for the map that \<open>getImportToFilesMap\<close> returns for the
  directory: one stanza for each argument, separated by blank lines. The stanza of an
  argument that no counted file imports is the marker \<open>(module M does not need package
  ARG)\<close>; otherwise it lists the importing files one per line, in the order of the
  directory entries. The counted files are the \<open>.gno\<close> files (test files among them) whose
  names do not end in \<open>_filetest.gno\<close>.
\<close>

theorem mod_why_stanzas:
  assumes "ReadDir env wd = Inr entries"
    and "getImportToFilesMap env wd = Inr importToFilesMap"
  shows "formatModWhyStanzas modulePath args importToFilesMap
      = joinStanzas (map (whyStanza modulePath (importers env wd entries)) args)"
  using formatModWhyStanzas_loop_eq [of importToFilesMap "importers env wd entries"
      "int (length args)" 0 args modulePath "[]"]
    getImportToFilesMap_lookup [OF assms]
  by (simp add: formatModWhyStanzas_def)

text \<open>A directory with a document, a source file, a test file and a file test.\<close>

definition env0 :: "unit environment" where
  "env0 = \<lparr>ReadDir = (\<lambda>dir. Inr [''README.md'', ''a.gno'', ''a_test.gno'', ''z_filetest.gno'']),
     Join = (\<lambda>dir name. dir @ ''/'' @ name),
     GetGnoFileImports = (\<lambda>path.
       if path = ''./a.gno'' then Inr [''std'', ''gno.land/p/demo/avl'']
       else if path = ''./a_test.gno'' then Inr [''gno.land/p/demo/avl'', ''testing'']
       else if path = ''./z_filetest.gno'' then Inr [''gno.land/p/demo/users'']
       else Inl ())\<rparr>"

theorem mod_why_stanzas_witness:
  "\<exists>m. getImportToFilesMap env0 ''.'' = Inr m
     \<and> formatModWhyStanzas ''gno.land/r/x'' [''gno.land/p/demo/avl'', ''gno.land/p/demo/users''] m
       = ''# gno.land/p/demo/avl'' @ [newline] @ ''a.gno'' @ [newline] @ ''a_test.gno'' @ [newline]
         @ [newline] @ ''# gno.land/p/demo/users'' @ [newline]
         @ ''(module gno.land/r/x does not need package gno.land/p/demo/users)'' @ [newline]"
proof -
  have rd: "ReadDir env0 ''.'' = Inr [''README.md'', ''a.gno'', ''a_test.gno'', ''z_filetest.gno'']"
    by (simp add: env0_def)
  obtain m where m: "getImportToFilesMap env0 ''.'' = Inr m"
    by (simp add: getImportToFilesMap_def env0_def Ext_def HasSuffix_def)
  show ?thesis
    using mod_why_stanzas [OF rd m, of "''gno.land/r/x''"
        "[''gno.land/p/demo/avl'', ''gno.land/p/demo/users'']"] m
    by (simp add: whyStanza_def importers_def occurrences_def isWhyFile_def Ext_def
        HasSuffix_def notNeeded_def env0_def)
qed

section \<open>The syntax tree of \<open>modfile\<close>\<close>

text \<open>
  The types of \<open>golang.org/x/mod/modfile\<close> that the sources use. A field \<open>F\<close> of a struct
  \<open>S\<close> is \<open>S_F\<close> where the plain name would clash; the embedded \<open>Comments\<close> is the parent
  record, so that \<open>Before\<close>, \<open>Suffix\<close> and \<open>After\<close> are fields of every node, as in Go.
  A slice that the code compares with nil is a \<open>list option\<close> (\<open>None\<close> is nil).
\<close>

record Position =
  Line :: int
  LineRune :: int
  Byte :: int

record Comment =
  Comment_Start :: Position
  Comment_Token :: string
  Comment_Suffix :: bool

record Comments =
  Before :: "Comment list"
  Suffix :: "Comment list"
  After :: "Comment list"

record Line = Comments +
  Line_Start :: Position
  Line_Token :: "string list option"
  Line_InBlock :: bool
  Line_End :: Position

record LParen = Comments +
  LParen_Pos :: Position

record RParen = Comments +
  RParen_Pos :: Position

record 'l LineBlock = Comments +
  LineBlock_Start :: Position
  LineBlock_LParen :: LParen
  LineBlock_Token :: "string list"
  LineBlock_Line :: "'l list"
  LineBlock_RParen :: RParen

record CommentBlock = Comments +
  CommentBlock_Start :: Position

record 's FileSyntax = Comments +
  Name :: string
  Stmt :: "'s list"

definition zeroPosition :: Position where
  "zeroPosition = \<lparr>Line = 0, LineRune = 0, Byte = 0\<rparr>"

definition zeroLParen :: LParen where
  "zeroLParen = \<lparr>Before = [], Suffix = [], After = [], LParen_Pos = zeroPosition\<rparr>"

definition zeroRParen :: RParen where
  "zeroRParen = \<lparr>Before = [], Suffix = [], After = [], RParen_Pos = zeroPosition\<rparr>"

section \<open>The editor: \<open>addLine\<close> and \<open>addReplace\<close>\<close>

text \<open>
  The editor mutates nodes through pointers, and a \<open>Replace\<close> keeps a pointer to its line.
  A pointer is an index into the store of its type, or nil; a new node is allocated at the
  end of its store. An \<open>Expr\<close> is the interface value: the dynamic type and the pointer
  (which may be nil: a nil \<open>*Line\<close> stored in an \<open>Expr\<close> is not the nil interface). The nil
  interface is \<open>None :: Expr option\<close>.
\<close>

type_synonym ptr = "nat option"

datatype Expr = ELine ptr | ELineBlock ptr | ECommentBlock ptr

record module_Version =
  Path :: string
  Version :: string

record Replace =
  Old :: module_Version
  New :: module_Version
  Syntax :: ptr

definition zeroReplace :: Replace where
  "zeroReplace = \<lparr>Old = \<lparr>Path = [], Version = []\<rparr>, New = \<lparr>Path = [], Version = []\<rparr>,
     Syntax = None\<rparr>"

record state =
  Lines :: "Line list"
  Blocks :: "ptr LineBlock list"
  Replaces :: "Replace list"
  fileSyntax :: "Expr FileSyntax"
  replace :: "ptr list"

















text \<open>
  \<open>addReplace\<close> returns the new store and its \<open>error\<close> result (\<open>None\<close> is nil). The hint
  is passed to \<open>addLine\<close> as an \<open>Expr\<close> that holds a \<open>*Line\<close>, nil or not.

  The errors: \<open>errors.New\<close>, \<open>fmt.Errorf\<close> (the format and its arguments), the error of
  \<open>strconv.Unquote\<close>, \<open>module.InvalidVersionError\<close> with its \<open>Version\<close> and \<open>Err\<close>, and
  \<open>modfile.Error\<close> with its \<open>Filename\<close>, \<open>Pos\<close>, \<open>Verb\<close>, \<open>ModPath\<close> and \<open>Err\<close>.
\<close>

datatype fmtArg = ArgInt int | ArgString string

datatype error =
  errorString string
  | Errorf string "fmtArg list"
  | UnquoteError
  | InvalidVersionError string error
  | Error string Position string string error




subsection \<open>\<open>addLine\<close> with a nil hint\<close>



















subsection \<open>The loop of \<open>addReplace\<close> on a well-formed manifest\<close>

text \<open>
  The entries of the manifest: distinct, valid pointers; an entry that is not zeroed has
  a non-empty old path and its own line.
\<close>

definition entry :: "state \<Rightarrow> ptr \<Rightarrow> Replace" where
  "entry st rp = Replaces st ! the rp"




text \<open>An entry that the call is about: the test of the loop.\<close>

definition matchesOld :: "string \<Rightarrow> string \<Rightarrow> Replace \<Rightarrow> bool" where
  "matchesOld oldPath oldVers r =
    (Path (Old r) = oldPath \<and> (oldVers = [] \<or> Version (Old r) = oldVers))"

text \<open>The two effects of the body on the store: the entry updated, the entry removed.\<close>

definition updated :: "module_Version \<Rightarrow> string list \<Rightarrow> ptr \<Rightarrow> state \<Rightarrow> state" where
  "updated newv tokens rp st =
    (let r = entry st rp; l = the (Syntax r); ln = Lines st ! l in
     st\<lparr>Replaces := (Replaces st)[the rp := r\<lparr>New := newv\<rparr>],
        Lines := (Lines st)[l := ln\<lparr>Line_Token :=
          Some (if Line_InBlock ln then drop 1 tokens else tokens)\<rparr>]\<rparr>)"

definition removed :: "ptr \<Rightarrow> state \<Rightarrow> state" where
  "removed rp st =
    (let r = entry st rp; l = the (Syntax r) in
     st\<lparr>Lines := (Lines st)[l := (Lines st ! l)\<lparr>Line_Token := None, Suffix := []\<rparr>],
        Replaces := (Replaces st)[the rp := zeroReplace]\<rparr>)"







lemma lengths_updated [simp]:
  "length (Replaces (updated newv tokens rp st)) = length (Replaces st)"
  "length (Lines (updated newv tokens rp st)) = length (Lines st)"
  "Blocks (updated newv tokens rp st) = Blocks st"
  "fileSyntax (updated newv tokens rp st) = fileSyntax st"
  "replace (updated newv tokens rp st) = replace st"
  by (simp_all add: updated_def Let_def)

lemma lengths_removed [simp]:
  "length (Replaces (removed rp st)) = length (Replaces st)"
  "length (Lines (removed rp st)) = length (Lines st)"
  "Blocks (removed rp st) = Blocks st"
  "fileSyntax (removed rp st) = fileSyntax st"
  "replace (removed rp st) = replace st"
  by (simp_all add: removed_def Let_def)



















lemma matches_New [simp]: "matchesOld oldPath oldVers (r\<lparr>New := v\<rparr>) = matchesOld oldPath oldVers r"
  by (simp add: matchesOld_def)









lemma live_zero [simp]: "Path (Old zeroReplace) = []"
  by (simp add: zeroReplace_def)




subsection \<open>What every call of \<open>addLine\<close> does\<close>








subsection \<open>\<open>addReplace\<close> on a well-formed manifest\<close>











subsection \<open>\<open>addReplace\<close> with an old version\<close>







subsection \<open>Versions: \<open>parseVersion\<close> checks them, \<open>addReplace\<close> does not\<close>









section \<open>The lexer\<close>

text \<open>
  The parsed tree holds its nodes by value: the parser creates every node itself and
  nothing is shared. A statement is a line, a block of lines or a block of comments.
\<close>

datatype Stmt = SLine Line | SLineBlock "Line LineBlock" | SCommentBlock CommentBlock

text \<open>
  A node of the tree, for the two lists of \<open>assignComments\<close>: the file, statement \<open>i\<close>,
  the parentheses of block \<open>i\<close> and line \<open>j\<close> of block \<open>i\<close>.
\<close>

datatype node = NFile | NStmt nat | NLParen nat | NBlockLine nat nat | NRParen nat

record token =
  kind :: int
  tok_pos :: Position
  endPos :: Position
  tok_text :: string

text \<open>The kinds of tokens; a newline or a punctuation token has its ASCII code as kind.\<close>

definition EOF_kind :: int where "EOF_kind = - 1"
definition EOLCOMMENT :: int where "EOLCOMMENT = - 2"
definition IDENT :: int where "IDENT = - 3"
definition STRING :: int where "STRING = - 4"
definition COMMENT :: int where "COMMENT = - 5"

definition isComment :: "int \<Rightarrow> bool" where
  "isComment k = (k = COMMENT \<or> k = EOLCOMMENT)"

definition isEOL :: "int \<Rightarrow> bool" where
  "isEOL k = (k = EOF_kind \<or> k = EOLCOMMENT \<or> k = 0x0A)"

record input =
  filename :: string
  complete :: string
  remaining :: string
  tokenStart :: string
  token :: token
  pos :: Position
  comments :: "Comment list"
  in_file :: "Stmt FileSyntax"
  parseErrors :: "error list"
  pre :: "node list"
  post :: "node list"

definition zeroToken :: token where
  "zeroToken = \<lparr>kind = 0, tok_pos = zeroPosition, endPos = zeroPosition, tok_text = []\<rparr>"

definition zeroFile :: "Stmt FileSyntax" where
  "zeroFile = \<lparr>Before = [], Suffix = [], After = [], Name = [], Stmt = []\<rparr>"

definition newInput :: "string \<Rightarrow> string \<Rightarrow> input" where
  "newInput name data =
    \<lparr>filename = name, complete = data, remaining = data, tokenStart = [], token = zeroToken,
     pos = \<lparr>Line = 1, LineRune = 1, Byte = 0\<rparr>, comments = [], in_file = zeroFile,
     parseErrors = [], pre = [], post = []\<rparr>"

text \<open>
  A panic inside \<open>parse\<close> carries the input as it is when the panic starts: the deferred
  function of \<open>parse\<close> reads it. The value of the panic is \<open>&in.parseErrors\<close> (from
  \<open>in.Error\<close>) or anything else (a run-time error).
\<close>

datatype signal = PanicParseErrors | PanicOther

type_synonym 'a lexed = "signal \<times> input + 'a \<times> input"

definition inError :: "input \<Rightarrow> error \<Rightarrow> signal \<times> input" where
  "inError inp err =
    (PanicParseErrors,
     inp\<lparr>parseErrors := parseErrors inp @ [Error (filename inp) (pos inp) [] [] err]\<rparr>)"

definition eof :: "input \<Rightarrow> bool" where
  "eof inp = (remaining inp = [])"

definition peekRune :: "input \<Rightarrow> rune" where
  "peekRune inp = (if remaining inp = [] then 0 else fst (DecodeRune (remaining inp)))"

definition peekPrefix :: "input \<Rightarrow> string \<Rightarrow> bool" where
  "peekPrefix inp prefix = HasPrefix (remaining inp) prefix"

definition advance :: "Position \<Rightarrow> rune \<Rightarrow> nat \<Rightarrow> Position" where
  "advance p r width =
    (if r = 0x0A then p\<lparr>Line := Line p + 1, LineRune := 1, Byte := Byte p + int width\<rparr>
     else p\<lparr>LineRune := LineRune p + 1, Byte := Byte p + int width\<rparr>)"

definition readRune :: "input \<Rightarrow> rune lexed" where
  "readRune inp =
    (if remaining inp = []
     then Inl (inError inp (errorString ''internal lexer error: readRune at EOF''))
     else Inr (fst (DecodeRune (remaining inp)),
               inp\<lparr>remaining := drop (snd (DecodeRune (remaining inp))) (remaining inp),
                   pos := advance (pos inp) (fst (DecodeRune (remaining inp)))
                            (snd (DecodeRune (remaining inp)))\<rparr>))"

definition startToken :: "input \<Rightarrow> input" where
  "startToken inp =
    inp\<lparr>tokenStart := remaining inp, token := (token inp)\<lparr>tok_text := [], tok_pos := pos inp\<rparr>\<rparr>"

definition TrimSuffix :: "string \<Rightarrow> string \<Rightarrow> string" where
  "TrimSuffix s suffix = (if HasSuffix s suffix then take (length s - length suffix) s else s)"

definition endToken :: "input \<Rightarrow> int \<Rightarrow> input" where
  "endToken inp k =
    (let scanned = take (length (tokenStart inp) - length (remaining inp)) (tokenStart inp);
         t = (if isComment k
              then (if HasSuffix scanned [CHR 0x0D, CHR 0x0A]
                    then take (length scanned - 2) scanned
                    else TrimSuffix scanned [CHR 0x0A])
              else scanned)
     in inp\<lparr>token := (token inp)\<lparr>kind := k, tok_text := t, endPos := pos inp\<rparr>\<rparr>)"

definition peek :: "input \<Rightarrow> int" where
  "peek inp = kind (token inp)"

text \<open>
  \<open>isIdent\<close>: \<open>unicode.IsPrint\<close> is the parameter \<open>IsPrint\<close> of the lexer and of the
  parser.
\<close>

definition isIdent :: "(rune \<Rightarrow> bool) \<Rightarrow> rune \<Rightarrow> bool" where
  "isIdent IsPrint c =
    (if c = 0x20 \<or> c = 0x28 \<or> c = 0x29 \<or> c = 0x5B \<or> c = 0x5D \<or> c = 0x7B \<or> c = 0x7D
        \<or> c = 0x2C
     then False
     else \<not> IsSpace c \<and> IsPrint c)"

lemma readRune_shorter:
  "readRune inp = Inr (r, inp') \<Longrightarrow> length (remaining inp') < length (remaining inp)"
  using DecodeRune_width [of "remaining inp"]
  by (auto simp: readRune_def split: if_splits)

text \<open>The loop that consumes a comment to the end of its line.\<close>

function consumeComment :: "input \<Rightarrow> unit lexed" where
  "consumeComment inp =
    (if remaining inp \<noteq> [] then
       (case readRune inp of
          Inl p \<Rightarrow> Inl p
        | Inr (r, inp1) \<Rightarrow> if r \<noteq> 0x0A then consumeComment inp1 else Inr ((), inp1))
     else Inr ((), inp))"
  by pat_completeness auto
termination
  by (relation "measure (\<lambda>inp. length (remaining inp))") (auto dest: readRune_shorter)

declare consumeComment.simps [simp del]

text \<open>\<open>bytes.LastIndex(s, "\n")\<close>, as the number of bytes up to and including the last newline
  (0 when there is none): the index plus one.\<close>

definition afterLastNewline :: "string \<Rightarrow> nat" where
  "afterLastNewline s = length s - length (takeWhile (\<lambda>c. c \<noteq> CHR 0x0A) (rev s))"

text \<open>
  A comment at the head of the remaining input: it is a suffix comment when something
  other than white space stands before it on its line. The result is the input with the
  comment as its token.
\<close>

definition readComment :: "input \<Rightarrow> unit lexed" where
  "readComment inp0 =
    (let inp = startToken inp0;
         before = take (nat (Byte (pos inp))) (complete inp);
         suffix = (0 < length (TrimSpace (drop (afterLastNewline before) before)))
     in case readRune inp of
          Inl p \<Rightarrow> Inl p
        | Inr (r1, inp1) \<Rightarrow>
            (case readRune inp1 of
               Inl p \<Rightarrow> Inl p
             | Inr (r2, inp2) \<Rightarrow>
                 (case consumeComment inp2 of
                    Inl p \<Rightarrow> Inl p
                  | Inr (u, inp3) \<Rightarrow>
                      if \<not> suffix then Inr ((), endToken inp3 COMMENT)
                      else
                        (let inp4 = endToken inp3 EOLCOMMENT
                         in Inr ((), inp4\<lparr>comments := comments inp4 @
                              [\<lparr>Comment_Start = tok_pos (token inp4),
                                Comment_Token = tok_text (token inp4),
                                Comment_Suffix = suffix\<rparr>]\<rparr>)))))"

text \<open>
  The first loop of \<open>readToken\<close>: \<open>True\<close> when it has read a comment (and \<open>readToken\<close>
  returns), \<open>False\<close> when it leaves the loop.
\<close>

definition blockCommentError :: error where
  "blockCommentError = errorString ''mod files must use // comments (not /* */ comments)''"

function skipSpaces :: "input \<Rightarrow> bool lexed" where
  "skipSpaces inp =
    (if eof inp then Inr (False, inp)
     else if peekRune inp = 0x20 \<or> peekRune inp = 0x09 \<or> peekRune inp = 0x0D then
       (case readRune inp of
          Inl p \<Rightarrow> Inl p
        | Inr (r, inp1) \<Rightarrow> skipSpaces inp1)
     else if peekPrefix inp ''//'' then
       (case readComment inp of
          Inl p \<Rightarrow> Inl p
        | Inr (u, inp1) \<Rightarrow> Inr (True, inp1))
     else if peekPrefix inp ''/*'' then Inl (inError inp blockCommentError)
     else Inr (False, inp))"
  by pat_completeness auto
termination
  by (relation "measure (\<lambda>inp. length (remaining inp))") (auto dest: readRune_shorter)

declare skipSpaces.simps [simp del]

text \<open>The loop over a quoted string, after the opening quote.\<close>

definition stringEOF :: "input \<Rightarrow> signal \<times> input" where
  "stringEOF inp =
    inError (inp\<lparr>pos := tok_pos (token inp)\<rparr>) (errorString ''unexpected EOF in string'')"

function readString :: "rune \<Rightarrow> input \<Rightarrow> unit lexed" where
  "readString quote inp =
    (if eof inp then Inl (stringEOF inp)
     else if peekRune inp = 0x0A
     then Inl (inError inp (errorString ''unexpected newline in string''))
     else
       (case readRune inp of
          Inl p \<Rightarrow> Inl p
        | Inr (c, inp1) \<Rightarrow>
            if c = quote then Inr ((), inp1)
            else if c = 0x5C \<and> quote \<noteq> 0x60 then
              (if eof inp1 then Inl (stringEOF inp1)
               else
                 (case readRune inp1 of
                    Inl p \<Rightarrow> Inl p
                  | Inr (c2, inp2) \<Rightarrow> readString quote inp2))
            else readString quote inp1))"
  by pat_completeness auto
termination
proof (relation "measure (\<lambda>(quote, inp). length (remaining inp))")
  fix quote inp x c inp1 x2 c2 inp2
  assume "readRune inp = Inr x" "(c, inp1) = x" "readRune inp1 = Inr x2" "(c2, inp2) = x2"
  then show "((quote, inp2), (quote, inp)) \<in> measure (\<lambda>(quote, inp). length (remaining inp))"
    using readRune_shorter [of inp c inp1] readRune_shorter [of inp1 c2 inp2] by simp
qed (auto dest: readRune_shorter)

declare readString.simps [simp del]

text \<open>The loop over an identifier.\<close>

function readIdent :: "(rune \<Rightarrow> bool) \<Rightarrow> input \<Rightarrow> unit lexed" where
  "readIdent IsPrint inp =
    (if isIdent IsPrint (peekRune inp) then
       (if peekPrefix inp ''//'' then Inr ((), inp)
        else if peekPrefix inp ''/*'' then Inl (inError inp blockCommentError)
        else
          (case readRune inp of
             Inl p \<Rightarrow> Inl p
           | Inr (r, inp1) \<Rightarrow> readIdent IsPrint inp1))
     else Inr ((), inp))"
  by pat_completeness auto
termination
  by (relation "measure (\<lambda>(IsPrint, inp). length (remaining inp))") (auto dest: readRune_shorter)

declare readIdent.simps [simp del]

text \<open>
  The cases of \<open>readToken\<close> at the beginning of a token: a punctuation token, a quoted
  string, an identifier.
\<close>

definition isPunct :: "rune \<Rightarrow> bool" where
  "isPunct c = (c = 0x0A \<or> c = 0x28 \<or> c = 0x29 \<or> c = 0x5B \<or> c = 0x5D \<or> c = 0x7B
     \<or> c = 0x7D \<or> c = 0x2C)"

definition scanPunct :: "rune \<Rightarrow> input \<Rightarrow> unit lexed" where
  "scanPunct c inp =
    (case readRune inp of
       Inl p \<Rightarrow> Inl p
     | Inr (r, inp1) \<Rightarrow> Inr ((), endToken inp1 (int c)))"

definition scanQuoted :: "rune \<Rightarrow> input \<Rightarrow> unit lexed" where
  "scanQuoted quote inp =
    (case readRune inp of
       Inl p \<Rightarrow> Inl p
     | Inr (r, inp1) \<Rightarrow>
         (case readString quote inp1 of
            Inl p \<Rightarrow> Inl p
          | Inr (u, inp2) \<Rightarrow> Inr ((), endToken inp2 STRING)))"

definition scanIdent :: "(rune \<Rightarrow> bool) \<Rightarrow> input \<Rightarrow> unit lexed" where
  "scanIdent IsPrint inp =
    (if \<not> isIdent IsPrint (peekRune inp)
     then Inl (inError inp
            (Errorf ''unexpected input character %#q'' [ArgInt (int (peekRune inp))]))
     else
       (case readIdent IsPrint inp of
          Inl p \<Rightarrow> Inl p
        | Inr (u, inp1) \<Rightarrow> Inr ((), endToken inp1 IDENT)))"

definition scanToken :: "(rune \<Rightarrow> bool) \<Rightarrow> input \<Rightarrow> unit lexed" where
  "scanToken IsPrint inp0 =
    (let inp = startToken inp0 in
     if eof inp then Inr ((), endToken inp EOF_kind)
     else if isPunct (peekRune inp) then scanPunct (peekRune inp) inp
     else if peekRune inp = 0x22 \<or> peekRune inp = 0x60 then scanQuoted (peekRune inp) inp
     else scanIdent IsPrint inp)"

definition readToken :: "(rune \<Rightarrow> bool) \<Rightarrow> input \<Rightarrow> unit lexed" where
  "readToken IsPrint inp0 =
    (case skipSpaces inp0 of
       Inl p \<Rightarrow> Inl p
     | Inr (True, inp) \<Rightarrow> Inr ((), inp)
     | Inr (False, inp) \<Rightarrow> scanToken IsPrint inp)"

definition lex :: "(rune \<Rightarrow> bool) \<Rightarrow> input \<Rightarrow> token lexed" where
  "lex IsPrint inp =
    (case readToken IsPrint inp of
       Inl p \<Rightarrow> Inl p
     | Inr (u, inp1) \<Rightarrow> Inr (token inp, inp1))"

definition asciiPrint :: "rune \<Rightarrow> bool" where
  "asciiPrint r = (0x20 \<le> r \<and> r < 0x7F)"

subsection \<open>Every token but the last consumes input\<close>

lemma readRune_input:
  "readRune inp = Inr (r, inp') \<Longrightarrow> token inp' = token inp \<and> tokenStart inp' = tokenStart inp"
  by (auto simp: readRune_def split: if_splits)

lemma consumeComment_le:
  "consumeComment inp = Inr (u, inp') \<Longrightarrow> length (remaining inp') \<le> length (remaining inp)"
proof (induction inp rule: consumeComment.induct)
  case (1 inp)
  show ?case
  proof (cases "remaining inp = []")
    case True
    with "1.prems" show ?thesis by (simp add: consumeComment.simps [of inp])
  next
    case False
    with "1.prems" obtain r inp1 where rr: "readRune inp = Inr (r, inp1)"
      by (auto simp: consumeComment.simps [of inp] split: sum.splits)
    from readRune_shorter [OF rr] "1.IH" [OF False rr refl] "1.prems" False rr
    show ?thesis
      by (auto simp: consumeComment.simps [of inp] split: if_splits)
  qed
qed

lemma endToken_remaining [simp]: "remaining (endToken inp k) = remaining inp"
  by (simp add: endToken_def Let_def)

lemma endToken_kind [simp]: "kind (token (endToken inp k)) = k"
  by (simp add: endToken_def Let_def)

lemma startToken_remaining [simp]: "remaining (startToken inp) = remaining inp"
  by (simp add: startToken_def)

lemma readComment_lt:
  assumes "readComment inp = Inr (u, inp')"
  shows "length (remaining inp') < length (remaining inp) \<and> kind (token inp') \<noteq> EOF_kind"
proof -
  from assms obtain r1 inp1 r2 inp2 inp3 where
    r1: "readRune (startToken inp) = Inr (r1, inp1)" and r2: "readRune inp1 = Inr (r2, inp2)"
    and c: "consumeComment inp2 = Inr ((), inp3)"
    and res: "remaining inp' = remaining inp3"
      "kind (token inp') = COMMENT \<or> kind (token inp') = EOLCOMMENT"
    by (auto simp: readComment_def Let_def split: sum.splits if_splits)
  from readRune_shorter [OF r1] readRune_shorter [OF r2] consumeComment_le [OF c] res
  show ?thesis
    by (auto simp: COMMENT_def EOLCOMMENT_def EOF_kind_def)
qed

lemma skipSpaces_le:
  "skipSpaces inp = Inr (b, inp') \<Longrightarrow>
    length (remaining inp') \<le> length (remaining inp)
    \<and> (if b then length (remaining inp') < length (remaining inp) \<and> kind (token inp') \<noteq> EOF_kind
       else eof inp' \<or> (\<not> peekPrefix inp' ''//'' \<and> \<not> peekPrefix inp' ''/*''))"
proof (induction inp rule: skipSpaces.induct)
  case (1 inp)
  show ?case
  proof (cases "eof inp")
    case True
    with "1.prems" show ?thesis by (simp add: skipSpaces.simps [of inp])
  next
    case False
    show ?thesis
    proof (cases "peekRune inp = 0x20 \<or> peekRune inp = 0x09 \<or> peekRune inp = 0x0D")
      case True
      with "1.prems" False obtain r inp1 where rr: "readRune inp = Inr (r, inp1)"
        and rest: "skipSpaces inp1 = Inr (b, inp')"
        by (auto simp: skipSpaces.simps [of inp] split: sum.splits)
      from "1.IH" [OF False True rr refl rest] readRune_shorter [OF rr]
      show ?thesis by (auto split: if_splits)
    next
      case sp: False
      show ?thesis
      proof (cases "peekPrefix inp ''//''")
        case True
        with "1.prems" False sp obtain u where "readComment inp = Inr (u, inp')" and "b"
          by (auto simp: skipSpaces.simps [of inp] split: sum.splits)
        with readComment_lt [of inp u inp'] show ?thesis by simp
      next
        case nc: False
        with "1.prems" False sp show ?thesis
          by (auto simp: skipSpaces.simps [of inp] split: if_splits)
      qed
    qed
  qed
qed

lemma readString_le:
  "readString quote inp = Inr (u, inp') \<Longrightarrow> length (remaining inp') \<le> length (remaining inp)"
proof (induction quote inp rule: readString.induct)
  case (1 quote inp)
  from "1.prems" have ne: "\<not> eof inp" and nl: "peekRune inp \<noteq> 0x0A"
    by (auto simp: readString.simps [of quote inp] split: if_splits)
  with "1.prems" obtain c inp1 where rr: "readRune inp = Inr (c, inp1)"
    by (auto simp: readString.simps [of quote inp] split: sum.splits)
  note s1 = readRune_shorter [OF rr]
  show ?case
  proof (cases "c = quote")
    case True
    with "1.prems" ne nl rr s1 show ?thesis
      by (simp add: readString.simps [of quote inp])
  next
    case False
    show ?thesis
    proof (cases "c = 0x5C \<and> quote \<noteq> 0x60")
      case True
      with "1.prems" ne nl rr False have ne1: "\<not> eof inp1"
        by (auto simp: readString.simps [of quote inp] split: if_splits)
      with "1.prems" ne nl rr False True obtain c2 inp2 where r2: "readRune inp1 = Inr (c2, inp2)"
        and rest: "readString quote inp2 = Inr (u, inp')"
        by (auto simp: readString.simps [of quote inp] split: sum.splits)
      from "1.IH"(1) [OF ne nl rr refl False True ne1 r2 refl rest]
        readRune_shorter [OF r2] s1
      show ?thesis by simp
    next
      case esc: False
      with "1.prems" ne nl rr False have rest: "readString quote inp1 = Inr (u, inp')"
        by (auto simp: readString.simps [of quote inp])
      from "1.IH"(2) [OF ne nl rr refl False esc rest] s1
      show ?thesis by simp
    qed
  qed
qed

lemma readIdent_le:
  "readIdent IsPrint inp = Inr (u, inp') \<Longrightarrow> length (remaining inp') \<le> length (remaining inp)"
proof (induction IsPrint inp rule: readIdent.induct)
  case (1 IsPrint inp)
  show ?case
  proof (cases "isIdent IsPrint (peekRune inp) \<and> \<not> peekPrefix inp ''//''")
    case False
    with "1.prems" show ?thesis
      by (auto simp: readIdent.simps [of IsPrint inp] split: if_splits)
  next
    case True
    with "1.prems" have nb: "\<not> peekPrefix inp ''/*''"
      by (auto simp: readIdent.simps [of IsPrint inp] split: if_splits)
    with "1.prems" True obtain r inp1 where rr: "readRune inp = Inr (r, inp1)"
      and rest: "readIdent IsPrint inp1 = Inr (u, inp')"
      by (auto simp: readIdent.simps [of IsPrint inp] split: sum.splits)
    from "1.IH" [OF _ _ nb rr refl rest] True readRune_shorter [OF rr]
    show ?thesis by simp
  qed
qed

lemma scanToken_consumes:
  assumes "scanToken IsPrint inp = Inr (u, inp')"
    and "eof inp \<or> (\<not> peekPrefix inp ''//'' \<and> \<not> peekPrefix inp ''/*'')"
  shows "length (remaining inp') \<le> length (remaining inp)
    \<and> (kind (token inp') \<noteq> EOF_kind \<longrightarrow> length (remaining inp') < length (remaining inp))"
proof -
  define inp2 where "inp2 = startToken inp"
  have rem2: "remaining inp2 = remaining inp" by (simp add: inp2_def)
  show ?thesis
  proof (cases "eof inp2")
    case True
    with assms(1) show ?thesis
      by (auto simp: scanToken_def Let_def inp2_def [symmetric] rem2 [symmetric])
  next
    case ne: False
    show ?thesis
    proof (cases "isPunct (peekRune inp2)")
      case True
      with assms(1) ne obtain r inp3 where rr: "readRune inp2 = Inr (r, inp3)"
        and res: "remaining inp' = remaining inp3"
        by (auto simp: scanToken_def Let_def inp2_def [symmetric] scanPunct_def split: sum.splits)
      from readRune_shorter [OF rr] rem2 res show ?thesis by simp
    next
      case np: False
      show ?thesis
      proof (cases "peekRune inp2 = 0x22 \<or> peekRune inp2 = 0x60")
        case True
        with assms(1) ne np obtain r inp3 u' inp4 where rr: "readRune inp2 = Inr (r, inp3)"
          and rs: "readString (peekRune inp2) inp3 = Inr (u', inp4)"
          and res: "remaining inp' = remaining inp4"
          by (auto simp: scanToken_def Let_def inp2_def [symmetric] scanQuoted_def
              split: sum.splits)
        from readRune_shorter [OF rr] readString_le [OF rs] rem2 res show ?thesis by simp
      next
        case nq: False
        with assms(1) ne np have si: "scanIdent IsPrint inp2 = Inr (u, inp')"
          by (simp add: scanToken_def Let_def inp2_def [symmetric])
        then have id: "isIdent IsPrint (peekRune inp2)"
          by (auto simp: scanIdent_def split: if_splits)
        with si obtain u' inp3 where ri: "readIdent IsPrint inp2 = Inr (u', inp3)"
          and res: "remaining inp' = remaining inp3"
          by (auto simp: scanIdent_def split: sum.splits)
        from assms(2) ne rem2 have npre: "\<not> peekPrefix inp2 ''//''" "\<not> peekPrefix inp2 ''/*''"
          by (auto simp: eof_def peekPrefix_def)
        with ri id obtain r inp2' where rr: "readRune inp2 = Inr (r, inp2')"
          and ri': "readIdent IsPrint inp2' = Inr (u', inp3)"
          by (auto simp: readIdent.simps [of IsPrint inp2] split: sum.splits)
        from readRune_shorter [OF rr] readIdent_le [OF ri'] rem2 res show ?thesis by simp
      qed
    qed
  qed
qed

lemma readToken_consumes:
  assumes "readToken IsPrint inp = Inr (u, inp')"
  shows "length (remaining inp') \<le> length (remaining inp)
    \<and> (kind (token inp') \<noteq> EOF_kind \<longrightarrow> length (remaining inp') < length (remaining inp))"
proof -
  from assms obtain b inp1 where sk: "skipSpaces inp = Inr (b, inp1)"
    by (auto simp: readToken_def split: sum.splits)
  note le = skipSpaces_le [OF sk]
  show ?thesis
  proof (cases b)
    case True
    with assms sk le show ?thesis by (simp add: readToken_def)
  next
    case False
    with assms sk have "scanToken IsPrint inp1 = Inr (u, inp')"
      by (simp add: readToken_def)
    from scanToken_consumes [OF this] le False show ?thesis
      by auto
  qed
qed

text \<open>The measure of the parser's loops: the input left, and one more for a pending token.\<close>

definition tokensLeft :: "input \<Rightarrow> nat" where
  "tokensLeft inp = length (remaining inp) + (if kind (token inp) = EOF_kind then 0 else 1)"

lemma lex_tokensLeft:
  assumes "lex IsPrint inp = Inr (tok, inp')"
  shows "tok = token inp" and "tokensLeft inp' \<le> tokensLeft inp"
    and "kind tok \<noteq> EOF_kind \<Longrightarrow> tokensLeft inp' < tokensLeft inp"
  using assms readToken_consumes [of IsPrint inp _ inp']
  by (auto simp: lex_def tokensLeft_def split: sum.splits if_splits)

section \<open>The parser\<close>

definition zeroComments :: Comments where
  "zeroComments = \<lparr>Before = [], Suffix = [], After = []\<rparr>"

definition zeroComment :: Comment where
  "zeroComment = \<lparr>Comment_Start = zeroPosition, Comment_Token = [], Comment_Suffix = False\<rparr>"

text \<open>\<open>modfile.Comment{Start: tok.pos, Token: tok.text}\<close>.\<close>

definition tokenComment :: "token \<Rightarrow> Comment" where
  "tokenComment tok =
    \<lparr>Comment_Start = tok_pos tok, Comment_Token = tok_text tok, Comment_Suffix = False\<rparr>"

text \<open>\<open>&modfile.Line{Start: start, Token: tokens, End: end, InBlock: inBlock}\<close>.\<close>

definition mkLine :: "Position \<Rightarrow> string list \<Rightarrow> Position \<Rightarrow> bool \<Rightarrow> Line" where
  "mkLine start tokens endp inBlock =
    \<lparr>Before = [], Suffix = [], After = [], Line_Start = start, Line_Token = Some tokens,
     Line_InBlock = inBlock, Line_End = endp\<rparr>"

text \<open>\<open>in.file.Stmt = append(in.file.Stmt, stmt)\<close>.\<close>

definition appendStmt :: "input \<Rightarrow> Stmt \<Rightarrow> input" where
  "appendStmt inp stmt = inp\<lparr>in_file := (in_file inp)\<lparr>Stmt := Stmt (in_file inp) @ [stmt]\<rparr>\<rparr>"

text \<open>The loop of \<open>parseLine\<close>, after its first token.\<close>

function parseLine_loop ::
  "(rune \<Rightarrow> bool) \<Rightarrow> Position \<Rightarrow> Position \<Rightarrow> string list \<Rightarrow> input \<Rightarrow> Line lexed" where
  "parseLine_loop IsPrint start endp tokens inp =
    (case lex IsPrint inp of
       Inl p \<Rightarrow> Inl p
     | Inr (tok, inp1) \<Rightarrow>
         if isEOL (kind tok) then Inr (mkLine start tokens endp True, inp1)
         else parseLine_loop IsPrint start (endPos tok) (tokens @ [tok_text tok]) inp1)"
  by pat_completeness auto
termination
proof (relation "measure (\<lambda>(IsPrint, start, endp, tokens, inp). tokensLeft inp)")
  fix IsPrint :: "rune \<Rightarrow> bool" and start endp :: Position and tokens :: "string list"
    and inp x tok inp1
  assume "lex IsPrint inp = Inr x" "(tok, inp1) = x" "\<not> isEOL (kind tok)"
  then show "((IsPrint, start, endPos tok, tokens @ [tok_text tok], inp1),
      (IsPrint, start, endp, tokens, inp))
    \<in> measure (\<lambda>(IsPrint, start, endp, tokens, inp). tokensLeft inp)"
    using lex_tokensLeft(3) [of IsPrint inp tok inp1] by (auto simp: isEOL_def)
qed simp

declare parseLine_loop.simps [simp del]

definition parseLine :: "(rune \<Rightarrow> bool) \<Rightarrow> input \<Rightarrow> Line lexed" where
  "parseLine IsPrint inp =
    (case lex IsPrint inp of
       Inl p \<Rightarrow> Inl p
     | Inr (tok, inp1) \<Rightarrow>
         if isEOL (kind tok)
         then Inl (inError inp1 (errorString ''internal parse error: parseLine at end of line''))
         else parseLine_loop IsPrint (tok_pos tok) (endPos tok) [tok_text tok] inp1)"

lemma parseLine_loop_tokensLeft:
  "parseLine_loop IsPrint start endp tokens inp = Inr (l, inp') \<Longrightarrow> tokensLeft inp' \<le> tokensLeft inp"
proof (induction IsPrint start endp tokens inp rule: parseLine_loop.induct)
  case (1 IsPrint start endp tokens inp)
  from "1.prems" obtain tok inp1 where lx: "lex IsPrint inp = Inr (tok, inp1)"
    by (auto simp: parseLine_loop.simps [of IsPrint start endp tokens inp] split: sum.splits)
  show ?case
  proof (cases "isEOL (kind tok)")
    case True
    with "1.prems" lx lex_tokensLeft(2) [OF lx] show ?thesis
      by (simp add: parseLine_loop.simps [of IsPrint start endp tokens inp])
  next
    case False
    with "1.prems" lx have "parseLine_loop IsPrint start (endPos tok) (tokens @ [tok_text tok]) inp1
        = Inr (l, inp')"
      by (simp add: parseLine_loop.simps [of IsPrint start endp tokens inp])
    from "1.IH" [OF lx refl False this] lex_tokensLeft(2) [OF lx] show ?thesis by simp
  qed
qed

lemma parseLine_tokensLeft:
  assumes "parseLine IsPrint inp = Inr (l, inp')"
  shows "tokensLeft inp' < tokensLeft inp"
proof -
  from assms obtain tok inp1 where lx: "lex IsPrint inp = Inr (tok, inp1)"
    and ne: "\<not> isEOL (kind tok)"
    and rest: "parseLine_loop IsPrint (tok_pos tok) (endPos tok) [tok_text tok] inp1 = Inr (l, inp')"
    by (auto simp: parseLine_def split: sum.splits if_splits)
  from ne have "kind tok \<noteq> EOF_kind" by (simp add: isEOL_def)
  from lex_tokensLeft(3) [OF lx this] parseLine_loop_tokensLeft [OF rest] show ?thesis by simp
qed

text \<open>
  The loop of \<open>parseLineBlock\<close>: \<open>x\<close> is the block so far, \<open>cmts\<close> the comments and
  blank lines that wait for the next line or for the closing parenthesis.
\<close>

definition unterminatedBlock :: "input \<Rightarrow> Line LineBlock \<Rightarrow> error" where
  "unterminatedBlock inp x =
    Errorf ''syntax error (unterminated block started at %s:%d:%d)''
      [ArgString (filename inp), ArgInt (Line (LineBlock_Start x)),
       ArgInt (LineRune (LineBlock_Start x))]"

definition keepBlank :: "Line LineBlock \<Rightarrow> Comment list \<Rightarrow> bool" where
  "keepBlank x cmts =
    (length cmts = 0 \<and> 0 < length (LineBlock_Line x)
     \<or> 0 < length cmts \<and> Comment_Token (last cmts) \<noteq> [])"

function parseLineBlock_loop ::
  "(rune \<Rightarrow> bool) \<Rightarrow> Line LineBlock \<Rightarrow> Comment list \<Rightarrow> input \<Rightarrow> Line LineBlock lexed" where
  "parseLineBlock_loop IsPrint x cmts inp =
    (if peek inp = EOLCOMMENT then
       (case lex IsPrint inp of
          Inl p \<Rightarrow> Inl p
        | Inr (tok, inp1) \<Rightarrow> parseLineBlock_loop IsPrint x cmts inp1)
     else if peek inp = 0x0A then
       (case lex IsPrint inp of
          Inl p \<Rightarrow> Inl p
        | Inr (tok, inp1) \<Rightarrow>
            parseLineBlock_loop IsPrint x
              (if keepBlank x cmts then cmts @ [zeroComment] else cmts) inp1)
     else if peek inp = COMMENT then
       (case lex IsPrint inp of
          Inl p \<Rightarrow> Inl p
        | Inr (tok, inp1) \<Rightarrow>
            parseLineBlock_loop IsPrint x (cmts @ [tokenComment tok]) inp1)
     else if peek inp = EOF_kind then Inl (inError inp (unterminatedBlock inp x))
     else if peek inp = 0x29 then
       (case lex IsPrint inp of
          Inl p \<Rightarrow> Inl p
        | Inr (rparen, inp1) \<Rightarrow>
            if \<not> isEOL (peek inp1)
            then Inl (inError inp1
                   (errorString ''syntax error (expected newline after closing paren)''))
            else
              (case lex IsPrint inp1 of
                 Inl p \<Rightarrow> Inl p
               | Inr (tok, inp2) \<Rightarrow>
                   Inr (x\<lparr>LineBlock_RParen := (LineBlock_RParen x)
                          \<lparr>Before := cmts, RParen_Pos := tok_pos rparen\<rparr>\<rparr>, inp2)))
     else
       (case parseLine IsPrint inp of
          Inl p \<Rightarrow> Inl p
        | Inr (l, inp1) \<Rightarrow>
            parseLineBlock_loop IsPrint
              (x\<lparr>LineBlock_Line := LineBlock_Line x @ [l\<lparr>Before := cmts\<rparr>]\<rparr>) [] inp1))"
  by pat_completeness auto
termination
proof (relation "measure (\<lambda>(IsPrint, x, cmts, inp). tokensLeft inp)")
  show "wf (measure (\<lambda>(IsPrint, x, cmts, inp). tokensLeft inp))" by simp
next
  fix IsPrint :: "rune \<Rightarrow> bool" and x :: "Line LineBlock" and cmts :: "Comment list"
    and inp r tok inp1
  assume "peek inp = EOLCOMMENT" "lex IsPrint inp = Inr r" "(tok, inp1) = r"
  then show "((IsPrint, x, cmts, inp1), (IsPrint, x, cmts, inp))
      \<in> measure (\<lambda>(IsPrint, x, cmts, inp). tokensLeft inp)"
    using lex_tokensLeft [of IsPrint inp tok inp1]
    by (auto simp: peek_def EOLCOMMENT_def EOF_kind_def)
next
  fix IsPrint :: "rune \<Rightarrow> bool" and x :: "Line LineBlock" and cmts :: "Comment list"
    and inp r tok inp1
  assume "peek inp = 0x0A" "lex IsPrint inp = Inr r" "(tok, inp1) = r"
  then show "((IsPrint, x, if keepBlank x cmts then cmts @ [zeroComment] else cmts, inp1),
      (IsPrint, x, cmts, inp))
      \<in> measure (\<lambda>(IsPrint, x, cmts, inp). tokensLeft inp)"
    using lex_tokensLeft [of IsPrint inp tok inp1]
    by (auto simp: peek_def EOF_kind_def)
next
  fix IsPrint :: "rune \<Rightarrow> bool" and x :: "Line LineBlock" and cmts :: "Comment list"
    and inp r tok inp1
  assume "peek inp = COMMENT" "lex IsPrint inp = Inr r" "(tok, inp1) = r"
  then show "((IsPrint, x, cmts @ [tokenComment tok], inp1), (IsPrint, x, cmts, inp))
      \<in> measure (\<lambda>(IsPrint, x, cmts, inp). tokensLeft inp)"
    using lex_tokensLeft [of IsPrint inp tok inp1]
    by (auto simp: peek_def COMMENT_def EOF_kind_def)
next
  fix IsPrint :: "rune \<Rightarrow> bool" and x :: "Line LineBlock" and cmts :: "Comment list"
    and inp r l inp1
  assume "parseLine IsPrint inp = Inr r" "(l, inp1) = r"
  then show "((IsPrint, x\<lparr>LineBlock_Line := LineBlock_Line x @ [l\<lparr>Before := cmts\<rparr>]\<rparr>, [], inp1),
      (IsPrint, x, cmts, inp))
      \<in> measure (\<lambda>(IsPrint, x, cmts, inp). tokensLeft inp)"
    using parseLine_tokensLeft [of IsPrint inp l inp1] by simp
qed

declare parseLineBlock_loop.simps [simp del]

text \<open>\<open>parseLineBlock(start, token, lparen)\<close>.\<close>

definition parseLineBlock ::
  "(rune \<Rightarrow> bool) \<Rightarrow> Position \<Rightarrow> string list \<Rightarrow> token \<Rightarrow> input \<Rightarrow> Line LineBlock lexed" where
  "parseLineBlock IsPrint start tokens lparen inp =
    parseLineBlock_loop IsPrint
      \<lparr>Before = [], Suffix = [], After = [], LineBlock_Start = start,
       LineBlock_LParen = zeroLParen\<lparr>LParen_Pos := tok_pos lparen\<rparr>, LineBlock_Token = tokens,
       LineBlock_Line = [], LineBlock_RParen = zeroRParen\<rparr>
      [] inp"


lemma parseLineBlock_loop_tokensLeft:
  "parseLineBlock_loop IsPrint x cmts inp = Inr (y, inp') \<Longrightarrow> tokensLeft inp' \<le> tokensLeft inp"
proof (induction IsPrint x cmts inp rule: parseLineBlock_loop.induct)
  case (1 IsPrint x cmts inp)
  note eq = parseLineBlock_loop.simps [of IsPrint x cmts inp]
  consider (a) "peek inp = EOLCOMMENT" | (b) "peek inp \<noteq> EOLCOMMENT" "peek inp = 0x0A"
    | (c) "peek inp \<noteq> EOLCOMMENT" "peek inp \<noteq> 0x0A" "peek inp = COMMENT"
    | (d) "peek inp \<noteq> EOLCOMMENT" "peek inp \<noteq> 0x0A" "peek inp \<noteq> COMMENT" "peek inp = EOF_kind"
    | (e) "peek inp \<noteq> EOLCOMMENT" "peek inp \<noteq> 0x0A" "peek inp \<noteq> COMMENT" "peek inp \<noteq> EOF_kind"
        "peek inp = 0x29"
    | (f) "peek inp \<noteq> EOLCOMMENT" "peek inp \<noteq> 0x0A" "peek inp \<noteq> COMMENT" "peek inp \<noteq> EOF_kind"
        "peek inp \<noteq> 0x29"
    by blast
  then show ?case
  proof cases
    case a
    with "1.prems" obtain tok inp1 where lx: "lex IsPrint inp = Inr (tok, inp1)"
      and rest: "parseLineBlock_loop IsPrint x cmts inp1 = Inr (y, inp')"
      by (auto simp: eq split: sum.splits)
    from "1.IH"(1) [OF a lx refl rest] lex_tokensLeft(2) [OF lx] show ?thesis by simp
  next
    case b
    with "1.prems" obtain tok inp1 where lx: "lex IsPrint inp = Inr (tok, inp1)"
      and rest: "parseLineBlock_loop IsPrint x
          (if keepBlank x cmts then cmts @ [zeroComment] else cmts) inp1 = Inr (y, inp')"
      by (auto simp: eq split: sum.splits)
    from "1.IH"(2) [OF b lx refl rest] lex_tokensLeft(2) [OF lx] show ?thesis by simp
  next
    case c
    with "1.prems" obtain tok inp1 where lx: "lex IsPrint inp = Inr (tok, inp1)"
      and rest: "parseLineBlock_loop IsPrint x (cmts @ [tokenComment tok]) inp1 = Inr (y, inp')"
      by (auto simp: eq split: sum.splits)
    from "1.IH"(3) [OF c lx refl rest] lex_tokensLeft(2) [OF lx] show ?thesis by simp
  next
    case d
    with "1.prems" show ?thesis by (simp add: eq)
  next
    case e
    with "1.prems" obtain rparen inp1 tok where lx: "lex IsPrint inp = Inr (rparen, inp1)"
      and lx2: "lex IsPrint inp1 = Inr (tok, inp')"
      by (auto simp: eq split: sum.splits if_splits)
    from lex_tokensLeft(2) [OF lx] lex_tokensLeft(2) [OF lx2] show ?thesis by simp
  next
    case f
    with "1.prems" obtain l inp1 where pl: "parseLine IsPrint inp = Inr (l, inp1)"
      and rest: "parseLineBlock_loop IsPrint
          (x\<lparr>LineBlock_Line := LineBlock_Line x @ [l\<lparr>Before := cmts\<rparr>]\<rparr>) [] inp1 = Inr (y, inp')"
      by (auto simp: eq split: sum.splits)
    from "1.IH"(4) [OF f pl refl rest] parseLine_tokensLeft [OF pl] show ?thesis by simp
  qed
qed

text \<open>\<open>in.file.Stmt = append(in.file.Stmt, stmt)\<close> leaves the lexer alone.\<close>

lemma tokensLeft_appendStmt [simp]: "tokensLeft (appendStmt inp stmt) = tokensLeft inp"
  by (simp add: appendStmt_def tokensLeft_def)

text \<open>The two literals of \<open>parseStmt\<close>: a line outside of a block, an empty block.\<close>

definition emptyBlock :: "Position \<Rightarrow> string list \<Rightarrow> token \<Rightarrow> token \<Rightarrow> Line LineBlock" where
  "emptyBlock start tokens lparen rparen =
    \<lparr>Before = [], Suffix = [], After = [], LineBlock_Start = start,
     LineBlock_LParen = zeroLParen\<lparr>LParen_Pos := tok_pos lparen\<rparr>, LineBlock_Token = tokens,
     LineBlock_Line = [], LineBlock_RParen = zeroRParen\<lparr>RParen_Pos := tok_pos rparen\<rparr>\<rparr>"

text \<open>The loop of \<open>parseStmt\<close>, after its first token.\<close>

function parseStmt_loop ::
  "(rune \<Rightarrow> bool) \<Rightarrow> Position \<Rightarrow> Position \<Rightarrow> string list \<Rightarrow> input \<Rightarrow> unit lexed" where
  "parseStmt_loop IsPrint start endp tokens inp =
    (case lex IsPrint inp of
       Inl p \<Rightarrow> Inl p
     | Inr (tok, inp1) \<Rightarrow>
         if isEOL (kind tok)
         then Inr ((), appendStmt inp1 (SLine (mkLine start tokens endp False)))
         else if kind tok = 0x28 then
           (if isEOL (peek inp1) then
              (case parseLineBlock IsPrint start tokens tok inp1 of
                 Inl p \<Rightarrow> Inl p
               | Inr (x, inp2) \<Rightarrow> Inr ((), appendStmt inp2 (SLineBlock x)))
            else if peek inp1 = 0x29 then
              (case lex IsPrint inp1 of
                 Inl p \<Rightarrow> Inl p
               | Inr (rparen, inp2) \<Rightarrow>
                   if isEOL (peek inp2) then
                     (case lex IsPrint inp2 of
                        Inl p \<Rightarrow> Inl p
                      | Inr (t, inp3) \<Rightarrow>
                          Inr ((), appendStmt inp3 (SLineBlock (emptyBlock start tokens tok rparen))))
                   else parseStmt_loop IsPrint start endp
                          (tokens @ [tok_text tok, tok_text rparen]) inp2)
            else parseStmt_loop IsPrint start endp (tokens @ [tok_text tok]) inp1)
         else parseStmt_loop IsPrint start (endPos tok) (tokens @ [tok_text tok]) inp1)"
  by pat_completeness auto
termination
proof (relation "measure (\<lambda>(IsPrint, start, endp, tokens, inp). tokensLeft inp)")
  show "wf (measure (\<lambda>(IsPrint, start, endp, tokens, inp). tokensLeft inp))" by simp
next
  fix IsPrint :: "rune \<Rightarrow> bool" and start endp :: Position and tokens :: "string list"
    and inp r tok inp1 r2 rparen inp2
  assume "lex IsPrint inp = Inr r" "(tok, inp1) = r" "kind tok = 0x28"
    "lex IsPrint inp1 = Inr r2" "(rparen, inp2) = r2"
  then show "((IsPrint, start, endp, tokens @ [tok_text tok, tok_text rparen], inp2),
      (IsPrint, start, endp, tokens, inp))
      \<in> measure (\<lambda>(IsPrint, start, endp, tokens, inp). tokensLeft inp)"
    using lex_tokensLeft(3) [of IsPrint inp tok inp1] lex_tokensLeft(2) [of IsPrint inp1 rparen inp2]
    by (auto simp: EOF_kind_def)
next
  fix IsPrint :: "rune \<Rightarrow> bool" and start endp :: Position and tokens :: "string list"
    and inp r tok inp1
  assume "lex IsPrint inp = Inr r" "(tok, inp1) = r" "kind tok = 0x28"
  then show "((IsPrint, start, endp, tokens @ [tok_text tok], inp1),
      (IsPrint, start, endp, tokens, inp))
      \<in> measure (\<lambda>(IsPrint, start, endp, tokens, inp). tokensLeft inp)"
    using lex_tokensLeft(3) [of IsPrint inp tok inp1] by (auto simp: EOF_kind_def)
next
  fix IsPrint :: "rune \<Rightarrow> bool" and start endp :: Position and tokens :: "string list"
    and inp r tok inp1
  assume "lex IsPrint inp = Inr r" "(tok, inp1) = r" "\<not> isEOL (kind tok)"
  then show "((IsPrint, start, endPos tok, tokens @ [tok_text tok], inp1),
      (IsPrint, start, endp, tokens, inp))
      \<in> measure (\<lambda>(IsPrint, start, endp, tokens, inp). tokensLeft inp)"
    using lex_tokensLeft(3) [of IsPrint inp tok inp1] by (auto simp: isEOL_def)
qed

declare parseStmt_loop.simps [simp del]

definition parseStmt :: "(rune \<Rightarrow> bool) \<Rightarrow> input \<Rightarrow> unit lexed" where
  "parseStmt IsPrint inp =
    (case lex IsPrint inp of
       Inl p \<Rightarrow> Inl p
     | Inr (tok, inp1) \<Rightarrow> parseStmt_loop IsPrint (tok_pos tok) (endPos tok) [tok_text tok] inp1)"

lemma parseStmt_loop_tokensLeft:
  "parseStmt_loop IsPrint start endp tokens inp = Inr (u, inp') \<Longrightarrow>
    tokensLeft inp' \<le> tokensLeft inp"
proof (induction IsPrint start endp tokens inp rule: parseStmt_loop.induct)
  case (1 IsPrint start endp tokens inp)
  note eq = parseStmt_loop.simps [of IsPrint start endp tokens inp]
  from "1.prems" obtain tok inp1 where lx: "lex IsPrint inp = Inr (tok, inp1)"
    by (auto simp: eq split: sum.splits)
  note le1 = lex_tokensLeft(2) [OF lx]
  consider (a) "isEOL (kind tok)" | (b) "\<not> isEOL (kind tok)" "kind tok = 0x28" "isEOL (peek inp1)"
    | (c) "\<not> isEOL (kind tok)" "kind tok = 0x28" "\<not> isEOL (peek inp1)" "peek inp1 = 0x29"
    | (d) "\<not> isEOL (kind tok)" "kind tok = 0x28" "\<not> isEOL (peek inp1)" "peek inp1 \<noteq> 0x29"
    | (e) "\<not> isEOL (kind tok)" "kind tok \<noteq> 0x28"
    by blast
  then show ?case
  proof cases
    case a
    with "1.prems" lx le1 show ?thesis by (auto simp: eq)
  next
    case b
    with "1.prems" lx obtain x inp2 where
      pb: "parseLineBlock IsPrint start tokens tok inp1 = Inr (x, inp2)"
      and res: "inp' = appendStmt inp2 (SLineBlock x)"
      by (auto simp: eq split: sum.splits)
    from parseLineBlock_loop_tokensLeft [OF pb [unfolded parseLineBlock_def]] le1 res
    show ?thesis by simp
  next
    case c
    with "1.prems" lx obtain rparen inp2 where lx2: "lex IsPrint inp1 = Inr (rparen, inp2)"
      by (auto simp: eq split: sum.splits)
    note le2 = lex_tokensLeft(2) [OF lx2]
    show ?thesis
    proof (cases "isEOL (peek inp2)")
      case True
      with "1.prems" lx c lx2 obtain t inp3 where lx3: "lex IsPrint inp2 = Inr (t, inp3)"
        and res: "inp' = appendStmt inp3 (SLineBlock (emptyBlock start tokens tok rparen))"
        by (auto simp: eq split: sum.splits)
      from lex_tokensLeft(2) [OF lx3] le1 le2 res show ?thesis by simp
    next
      case False
      with "1.prems" lx c lx2 have rest: "parseStmt_loop IsPrint start endp
          (tokens @ [tok_text tok, tok_text rparen]) inp2 = Inr (u, inp')"
        by (simp add: eq)
      from "1.IH"(1) [OF lx refl c(1) c(2) c(3) c(4) lx2 refl False rest] le1 le2
      show ?thesis by simp
    qed
  next
    case d
    with "1.prems" lx have rest:
      "parseStmt_loop IsPrint start endp (tokens @ [tok_text tok]) inp1 = Inr (u, inp')"
      by (simp add: eq)
    from "1.IH"(2) [OF lx refl d(1) d(2) d(3) d(4) rest] le1 show ?thesis by simp
  next
    case e
    with "1.prems" lx have rest:
      "parseStmt_loop IsPrint start (endPos tok) (tokens @ [tok_text tok]) inp1 = Inr (u, inp')"
      by (simp add: eq)
    from "1.IH"(3) [OF lx refl e(1) e(2) rest] le1 show ?thesis by simp
  qed
qed

lemma parseStmt_tokensLeft:
  assumes "parseStmt IsPrint inp = Inr (u, inp')" and "peek inp \<noteq> EOF_kind"
  shows "tokensLeft inp' < tokensLeft inp"
proof -
  from assms(1) obtain tok inp1 where lx: "lex IsPrint inp = Inr (tok, inp1)"
    and rest: "parseStmt_loop IsPrint (tok_pos tok) (endPos tok) [tok_text tok] inp1 = Inr (u, inp')"
    by (auto simp: parseStmt_def split: sum.splits)
  from lex_tokensLeft(1) [OF lx] assms(2) have "kind tok \<noteq> EOF_kind" by (simp add: peek_def)
  from lex_tokensLeft(3) [OF lx this] parseStmt_loop_tokensLeft [OF rest] show ?thesis by simp
qed

text \<open>
  \<open>in.file.Stmt[len(in.file.Stmt)-1].Comment().Before = cb.Before\<close>: the index is out of
  range when there is no statement.
\<close>

fun setBefore :: "Comment list \<Rightarrow> Stmt \<Rightarrow> Stmt" where
  "setBefore cs (SLine l) = SLine (l\<lparr>Before := cs\<rparr>)"
| "setBefore cs (SLineBlock b) = SLineBlock (b\<lparr>Before := cs\<rparr>)"
| "setBefore cs (SCommentBlock c) = SCommentBlock (c\<lparr>Before := cs\<rparr>)"

definition setLastBefore :: "input \<Rightarrow> Comment list \<Rightarrow> signal \<times> input + input" where
  "setLastBefore inp cs =
    (let stmts = Stmt (in_file inp) in
     if stmts = [] then Inl (PanicOther, inp)
     else Inr (inp\<lparr>in_file := (in_file inp)
            \<lparr>Stmt := stmts[length stmts - 1 := setBefore cs (stmts ! (length stmts - 1))]\<rparr>\<rparr>))"

definition newCommentBlock :: "Position \<Rightarrow> CommentBlock" where
  "newCommentBlock start = \<lparr>Before = [], Suffix = [], After = [], CommentBlock_Start = start\<rparr>"

text \<open>The loop of \<open>parseFile\<close>; \<open>cb\<close> is the block of comments being read, if any.\<close>

function parseFile_loop :: "(rune \<Rightarrow> bool) \<Rightarrow> CommentBlock option \<Rightarrow> input \<Rightarrow> unit lexed" where
  "parseFile_loop IsPrint cb inp =
    (if peek inp = 0x0A then
       (case lex IsPrint inp of
          Inl p \<Rightarrow> Inl p
        | Inr (tok, inp1) \<Rightarrow>
            (case cb of
               None \<Rightarrow> parseFile_loop IsPrint None inp1
             | Some b \<Rightarrow> parseFile_loop IsPrint None (appendStmt inp1 (SCommentBlock b))))
     else if peek inp = COMMENT then
       (case lex IsPrint inp of
          Inl p \<Rightarrow> Inl p
        | Inr (tok, inp1) \<Rightarrow>
            (let b = (case cb of None \<Rightarrow> newCommentBlock (tok_pos tok) | Some b \<Rightarrow> b)
             in parseFile_loop IsPrint (Some (b\<lparr>Before := Before b @ [tokenComment tok]\<rparr>)) inp1))
     else if peek inp = EOF_kind then
       (case cb of
          None \<Rightarrow> Inr ((), inp)
        | Some b \<Rightarrow> Inr ((), appendStmt inp (SCommentBlock b)))
     else
       (case parseStmt IsPrint inp of
          Inl p \<Rightarrow> Inl p
        | Inr (u, inp1) \<Rightarrow>
            (case cb of
               None \<Rightarrow> parseFile_loop IsPrint None inp1
             | Some b \<Rightarrow>
                 (case setLastBefore inp1 (Before b) of
                    Inl p \<Rightarrow> Inl p
                  | Inr inp2 \<Rightarrow> parseFile_loop IsPrint None inp2))))"
  by pat_completeness auto
termination
proof (relation "measure (\<lambda>(IsPrint, cb, inp). tokensLeft inp)")
  show "wf (measure (\<lambda>(IsPrint, cb, inp). tokensLeft inp))" by simp
next
  fix IsPrint :: "rune \<Rightarrow> bool" and cb :: "CommentBlock option" and inp r tok inp1
  assume "peek inp = 0x0A" "lex IsPrint inp = Inr r" "(tok, inp1) = r"
  then show "((IsPrint, None, inp1), (IsPrint, cb, inp))
      \<in> measure (\<lambda>(IsPrint, cb, inp). tokensLeft inp)"
    using lex_tokensLeft [of IsPrint inp tok inp1] by (auto simp: peek_def EOF_kind_def)
next
  fix IsPrint :: "rune \<Rightarrow> bool" and cb :: "CommentBlock option" and inp r tok inp1 b
  assume "peek inp = 0x0A" "lex IsPrint inp = Inr r" "(tok, inp1) = r"
  then show "((IsPrint, None, appendStmt inp1 (SCommentBlock b)), (IsPrint, cb, inp))
      \<in> measure (\<lambda>(IsPrint, cb, inp). tokensLeft inp)"
    using lex_tokensLeft [of IsPrint inp tok inp1] by (auto simp: peek_def EOF_kind_def)
next
  fix IsPrint :: "rune \<Rightarrow> bool" and cb :: "CommentBlock option" and inp r tok inp1 b
  assume "peek inp = COMMENT" "lex IsPrint inp = Inr r" "(tok, inp1) = r"
  then show "((IsPrint, Some (b\<lparr>Before := Before b @ [tokenComment tok]\<rparr>), inp1), (IsPrint, cb, inp))
      \<in> measure (\<lambda>(IsPrint, cb, inp). tokensLeft inp)"
    using lex_tokensLeft [of IsPrint inp tok inp1]
    by (auto simp: peek_def EOF_kind_def COMMENT_def)
next
  fix IsPrint :: "rune \<Rightarrow> bool" and cb :: "CommentBlock option" and inp r u inp1
  assume "peek inp \<noteq> EOF_kind" "parseStmt IsPrint inp = Inr r" "(u, inp1) = r"
  then show "((IsPrint, None, inp1), (IsPrint, cb, inp))
      \<in> measure (\<lambda>(IsPrint, cb, inp). tokensLeft inp)"
    using parseStmt_tokensLeft [of IsPrint inp u inp1] by simp
next
  fix IsPrint :: "rune \<Rightarrow> bool" and cb :: "CommentBlock option" and inp r u inp1 b inp2
  assume "peek inp \<noteq> EOF_kind" "parseStmt IsPrint inp = Inr r" "(u, inp1) = r"
    "setLastBefore inp1 (Before b) = Inr inp2"
  then show "((IsPrint, None, inp2), (IsPrint, cb, inp))
      \<in> measure (\<lambda>(IsPrint, cb, inp). tokensLeft inp)"
    using parseStmt_tokensLeft [of IsPrint inp u inp1]
    by (auto simp: setLastBefore_def Let_def tokensLeft_def split: if_splits)
qed

declare parseFile_loop.simps [simp del]

text \<open>\<open>parseFile\<close>: \<open>in.file = new(modfile.FileSyntax)\<close>, then the loop.\<close>

definition parseFile :: "(rune \<Rightarrow> bool) \<Rightarrow> input \<Rightarrow> unit lexed" where
  "parseFile IsPrint inp = parseFile_loop IsPrint None (inp\<lparr>in_file := zeroFile\<rparr>)"

section \<open>Comment assignment\<close>

text \<open>
  \<open>order\<close> walks the tree and appends every node to the preorder and to the postorder
  list. The statements, the lines of a block and the parentheses are never nil.
\<close>

definition orderLeaf :: "node \<Rightarrow> node list \<times> node list \<Rightarrow> node list \<times> node list" where
  "orderLeaf x = (\<lambda>(pr, po). (pr @ [x], po @ [x]))"

fun orderStmt :: "nat \<Rightarrow> Stmt \<Rightarrow> node list \<times> node list \<Rightarrow> node list \<times> node list" where
  "orderStmt i (SLine l) acc = orderLeaf (NStmt i) acc"
| "orderStmt i (SCommentBlock c) acc = orderLeaf (NStmt i) acc"
| "orderStmt i (SLineBlock b) (pr, po) =
    (let (pr1, po1) = orderLeaf (NLParen i) (pr @ [NStmt i], po);
         (pr2, po2) = fold (\<lambda>j. orderLeaf (NBlockLine i j)) [0..<length (LineBlock_Line b)]
                        (pr1, po1);
         (pr3, po3) = orderLeaf (NRParen i) (pr2, po2)
     in (pr3, po3 @ [NStmt i]))"

definition orderFile ::
  "Stmt FileSyntax \<Rightarrow> node list \<times> node list \<Rightarrow> node list \<times> node list" where
  "orderFile f = (\<lambda>(pr, po).
    (let (pr1, po1) = fold (\<lambda>i. orderStmt i (Stmt f ! i)) [0..<length (Stmt f)] (pr @ [NFile], po)
     in (pr1, po1 @ [NFile])))"

text \<open>
  \<open>x.Comment()\<close> is the embedded \<open>Comments\<close> of a node; \<open>onComments g\<close> changes it by \<open>g\<close>.
\<close>

definition onComments :: "(Comments \<Rightarrow> Comments) \<Rightarrow> 'a Comments_scheme \<Rightarrow> 'a Comments_scheme" where
  "onComments g r =
    (let c = g \<lparr>Before = Before r, Suffix = Suffix r, After = After r\<rparr>
     in r\<lparr>Before := Before c, Suffix := Suffix c, After := After c\<rparr>)"

fun onStmt :: "(Comments \<Rightarrow> Comments) \<Rightarrow> Stmt \<Rightarrow> Stmt" where
  "onStmt g (SLine l) = SLine (onComments g l)"
| "onStmt g (SLineBlock b) = SLineBlock (onComments g b)"
| "onStmt g (SCommentBlock c) = SCommentBlock (onComments g c)"

fun onBlock :: "(Line LineBlock \<Rightarrow> Line LineBlock) \<Rightarrow> Stmt \<Rightarrow> Stmt" where
  "onBlock h (SLineBlock b) = SLineBlock (h b)"
| "onBlock h s = s"

definition onStmtAt :: "nat \<Rightarrow> (Stmt \<Rightarrow> Stmt) \<Rightarrow> Stmt FileSyntax \<Rightarrow> Stmt FileSyntax" where
  "onStmtAt i h f = (if i < length (Stmt f) then f\<lparr>Stmt := (Stmt f)[i := h (Stmt f ! i)]\<rparr> else f)"

text \<open>The node \<open>x\<close> of the tree \<open>f\<close> with its comments changed by \<open>g\<close>.\<close>

fun updNode :: "(Comments \<Rightarrow> Comments) \<Rightarrow> node \<Rightarrow> Stmt FileSyntax \<Rightarrow> Stmt FileSyntax" where
  "updNode g NFile f = onComments g f"
| "updNode g (NStmt i) f = onStmtAt i (onStmt g) f"
| "updNode g (NLParen i) f =
    onStmtAt i (onBlock (\<lambda>b. b\<lparr>LineBlock_LParen := onComments g (LineBlock_LParen b)\<rparr>)) f"
| "updNode g (NBlockLine i j) f =
    onStmtAt i (onBlock (\<lambda>b.
      if j < length (LineBlock_Line b)
      then b\<lparr>LineBlock_Line := (LineBlock_Line b)[j := onComments g (LineBlock_Line b ! j)]\<rparr>
      else b)) f"
| "updNode g (NRParen i) f =
    onStmtAt i (onBlock (\<lambda>b. b\<lparr>LineBlock_RParen := onComments g (LineBlock_RParen b)\<rparr>)) f"

definition addBefore :: "Comment list \<Rightarrow> Comments \<Rightarrow> Comments" where
  "addBefore cs c = c\<lparr>Before := Before c @ cs\<rparr>"

definition addSuffix :: "Comment list \<Rightarrow> Comments \<Rightarrow> Comments" where
  "addSuffix cs c = c\<lparr>Suffix := Suffix c @ cs\<rparr>"

definition addAfter :: "Comment list \<Rightarrow> Comments \<Rightarrow> Comments" where
  "addAfter cs c = c\<lparr>After := After c @ cs\<rparr>"

definition reverseSuffix :: "Comments \<Rightarrow> Comments" where
  "reverseSuffix c = c\<lparr>Suffix := rev (Suffix c)\<rparr>"

text \<open>
  \<open>Span\<close> is a method of \<open>modfile\<close>: it is the parameter \<open>span\<close> of \<open>assignComments\<close>, a
  function of the tree and the node. \<open>modfileSpan\<close> is the one of \<open>modfile\<close>.
\<close>

type_synonym span = "Stmt FileSyntax \<Rightarrow> node \<Rightarrow> Position \<times> Position"

text \<open>The first loop: every whole-line comment goes before the first node that starts at
  or after it.\<close>

fun assignLine ::
  "span \<Rightarrow> node list \<Rightarrow> Comment list \<Rightarrow> Stmt FileSyntax \<Rightarrow> Stmt FileSyntax \<times> Comment list" where
  "assignLine span [] line f = (f, line)"
| "assignLine span (x # xs) line f =
    (let start = fst (span f x);
         here = takeWhile (\<lambda>c. Byte (Comment_Start c) \<le> Byte start) line
     in assignLine span xs (drop (length here) line) (updNode (addBefore here) x f))"

text \<open>The second loop, over the postorder list from its end: every suffix comment goes
  after the last node that ends at or before it and lies on one line.\<close>

fun assignSuffix ::
  "span \<Rightarrow> node list \<Rightarrow> Comment list \<Rightarrow> Stmt FileSyntax \<Rightarrow> Stmt FileSyntax \<times> Comment list" where
  "assignSuffix span [] suffix f = (f, suffix)"
| "assignSuffix span (x # xs) suffix f =
    (let (start, endp) = span f x in
     if x = NFile then assignSuffix span xs suffix f
     else if Line start \<noteq> Line endp then assignSuffix span xs suffix f
     else
       (let here = takeWhile (\<lambda>c. Byte endp \<le> Byte (Comment_Start c)) (rev suffix)
        in assignSuffix span xs (take (length suffix - length here) suffix)
             (updNode (addSuffix here) x f)))"

definition assignComments :: "span \<Rightarrow> input \<Rightarrow> input" where
  "assignComments span inp0 =
    (let (pr, po) = orderFile (in_file inp0) (pre inp0, post inp0);
         inp = inp0\<lparr>pre := pr, post := po\<rparr>;
         line = filter (\<lambda>c. \<not> Comment_Suffix c) (comments inp);
         suffix = filter Comment_Suffix (comments inp);
         (f1, line1) = assignLine span (pre inp) line (in_file inp);
         f2 = onComments (addAfter line1) f1;
         (f3, suffix1) = assignSuffix span (rev (post inp)) suffix f2;
         f4 = fold (updNode reverseSuffix) (post inp) f3
     in inp\<lparr>in_file := onComments (addBefore suffix1) f4\<rparr>)"

text \<open>\<open>Span\<close> as \<open>modfile\<close> defines it; \<open>Position.add(")")\<close> is one byte and one rune further.\<close>

definition addParen :: "Position \<Rightarrow> Position" where
  "addParen p = p\<lparr>LineRune := LineRune p + 1, Byte := Byte p + 1\<rparr>"

fun stmtSpan :: "Stmt \<Rightarrow> Position \<times> Position" where
  "stmtSpan (SLine l) = (Line_Start l, Line_End l)"
| "stmtSpan (SLineBlock b) = (LineBlock_Start b, addParen (RParen_Pos (LineBlock_RParen b)))"
| "stmtSpan (SCommentBlock c) = (CommentBlock_Start c, CommentBlock_Start c)"

fun blockSpan :: "(Line LineBlock \<Rightarrow> Position \<times> Position) \<Rightarrow> Stmt \<Rightarrow> Position \<times> Position" where
  "blockSpan h (SLineBlock b) = h b"
| "blockSpan h s = (zeroPosition, zeroPosition)"

fun modfileSpan :: span where
  "modfileSpan f NFile =
    (if Stmt f = [] then (zeroPosition, zeroPosition)
     else (fst (stmtSpan (Stmt f ! 0)), snd (stmtSpan (Stmt f ! (length (Stmt f) - 1)))))"
| "modfileSpan f (NStmt i) = stmtSpan (Stmt f ! i)"
| "modfileSpan f (NLParen i) =
    blockSpan (\<lambda>b. (LParen_Pos (LineBlock_LParen b), addParen (LParen_Pos (LineBlock_LParen b))))
      (Stmt f ! i)"
| "modfileSpan f (NBlockLine i j) =
    blockSpan (\<lambda>b. (Line_Start (LineBlock_Line b ! j), Line_End (LineBlock_Line b ! j))) (Stmt f ! i)"
| "modfileSpan f (NRParen i) =
    blockSpan (\<lambda>b. (RParen_Pos (LineBlock_RParen b), addParen (RParen_Pos (LineBlock_RParen b))))
      (Stmt f ! i)"

section \<open>\<open>parse\<close>\<close>

text \<open>
  The deferred function of \<open>parse\<close> turns a panic that is not the one of \<open>in.Error\<close> into
  an error of the list. The only such panic of the model is the index out of range of
  \<open>parseFile\<close>.
\<close>

definition internalError :: error where
  "internalError =
    Errorf ''internal error: %v'' [ArgString ''runtime error: index out of range [-1]'']"

definition recovered :: "signal \<times> input \<Rightarrow> input" where
  "recovered p =
    (case p of (sig, inp) \<Rightarrow>
       if sig \<noteq> PanicParseErrors
       then inp\<lparr>parseErrors := parseErrors inp @
              [Error (filename inp) (pos inp) [] [] internalError]\<rparr>
       else inp)"

definition errorsOf :: "input \<Rightarrow> error list option" where
  "errorsOf inp = (if 0 < length (parseErrors inp) then Some (parseErrors inp) else None)"

text \<open>The results of \<open>parse\<close> are the tree (\<open>None\<close> is nil) and the error (\<open>None\<close> is nil).\<close>

definition parse ::
  "(rune \<Rightarrow> bool) \<Rightarrow> span \<Rightarrow> string \<Rightarrow> string \<Rightarrow> Stmt FileSyntax option \<times> error list option" where
  "parse IsPrint span name data =
    (case (case readToken IsPrint (newInput name data) of
             Inl p \<Rightarrow> Inl p
           | Inr (u, inp1) \<Rightarrow> parseFile IsPrint inp1) of
       Inl p \<Rightarrow> (None, errorsOf (recovered p))
     | Inr (u, inp2) \<Rightarrow>
         if 0 < length (parseErrors inp2) then (None, Some (parseErrors inp2))
         else
           (let inp3 = assignComments span
                         (inp2\<lparr>in_file := (in_file inp2)\<lparr>Name := filename inp2\<rparr>\<rparr>)
            in (Some (in_file inp3), errorsOf inp3)))"

lemmas lex_eval = lex_def readToken_def scanToken_def scanPunct_def scanQuoted_def scanIdent_def isPunct_def skipSpaces.simps readComment_def consumeComment.simps
  readString.simps readIdent.simps isIdent_def endToken_def startToken_def readRune_def
  advance_def peekPrefix_def peekRune_def eof_def inError_def stringEOF_def newInput_def
  zeroToken_def zeroFile_def isComment_def isEOL_def peek_def EOF_kind_def EOLCOMMENT_def IDENT_def STRING_def
  COMMENT_def asciiPrint_def byte_def IsSpace_def TrimSpace_def TrimRightFunc_def lastRune_def
  HasPrefix_def HasSuffix_def TrimSuffix_def DecodeLastRune_def afterLastNewline_def
  blockCommentError_def TrimLeftFunc.simps lastIndexNotSpace.simps Let_def

lemmas parse_eval = parse_def parseFile_def parseFile_loop.simps parseStmt_def
  parseStmt_loop.simps parseLineBlock_def parseLineBlock_loop.simps parseLine_def
  parseLine_loop.simps mkLine_def appendStmt_def tokenComment_def zeroComment_def keepBlank_def
  emptyBlock_def setLastBefore_def newCommentBlock_def unterminatedBlock_def zeroLParen_def
  zeroRParen_def recovered_def errorsOf_def internalError_def

lemmas assign_eval = assignComments_def orderFile_def orderLeaf_def onComments_def onStmtAt_def
  addBefore_def addSuffix_def addAfter_def reverseSuffix_def addParen_def

section \<open>Parentheses in the middle of a line\<close>

lemma two_bytes: "0xC2 \<le> (b0::nat) \<Longrightarrow> b0 \<le> 0xDF \<Longrightarrow> 0x80 \<le> (b0 mod 0x20) * 0x40 + b1 mod 0x40"
proof -
  assume a: "0xC2 \<le> b0" "b0 \<le> 0xDF"
  then have "2 \<le> b0 mod 0x20" by presburger
  then have "2 * 0x40 \<le> (b0 mod 0x20) * 0x40" by (rule mult_le_mono1)
  then show ?thesis by simp
qed

lemma three_bytes:
  assumes "0xE0 \<le> (b0::nat)" "b0 \<le> 0xEF" "(if b0 = 0xE0 then 0xA0 else 0x80) \<le> (b1::nat)" "b1 \<le> 0xBF"
  shows "0x80 \<le> (b0 mod 0x10) * 0x1000 + (b1 mod 0x40) * 0x40 + b2 mod 0x40"
proof (cases "b0 = 0xE0")
  case True
  with assms have "0xA0 \<le> b1" by simp
  with assms(4) have "0x20 \<le> b1 mod 0x40" by presburger
  then have "0x20 * 0x40 \<le> (b1 mod 0x40) * 0x40" by (rule mult_le_mono1)
  then show ?thesis by simp
next
  case False
  with assms have "1 \<le> b0 mod 0x10" by presburger
  then have "1 * 0x1000 \<le> (b0 mod 0x10) * 0x1000" by (rule mult_le_mono1)
  then show ?thesis by simp
qed

lemma four_bytes:
  assumes "0xF0 \<le> (b0::nat)" "b0 \<le> 0xF4" "(if b0 = 0xF0 then 0x90 else 0x80) \<le> (b1::nat)" "b1 \<le> 0xBF"
  shows "0x80 \<le> (b0 mod 0x08) * 0x40000 + (b1 mod 0x40) * 0x1000 + (b2 mod 0x40) * 0x40 + b3 mod 0x40"
proof (cases "b0 = 0xF0")
  case True
  with assms have "0x90 \<le> b1" by simp
  with assms(4) have "0x10 \<le> b1 mod 0x40" by presburger
  then have "0x10 * 0x1000 \<le> (b1 mod 0x40) * 0x1000" by (rule mult_le_mono1)
  then show ?thesis by simp
next
  case False
  with assms have "1 \<le> b0 mod 0x08" by presburger
  then have "1 * 0x40000 \<le> (b0 mod 0x08) * 0x40000" by (rule mult_le_mono1)
  then show ?thesis by simp
qed


lemma DecodeRune_multi:
  assumes "\<not> byte c0 < 0x80"
  shows "0x80 \<le> fst (DecodeRune (c0 # rest))"
proof -
  define b0 where "b0 = byte c0"
  consider (A) "0xC2 \<le> b0" "b0 \<le> 0xDF" | (B) "0xE0 \<le> b0" "b0 \<le> 0xEF"
    | (C) "0xF0 \<le> b0" "b0 \<le> 0xF4"
    | (D) "\<not> (0xC2 \<le> b0 \<and> b0 \<le> 0xDF)" "\<not> (0xE0 \<le> b0 \<and> b0 \<le> 0xEF)"
        "\<not> (0xF0 \<le> b0 \<and> b0 \<le> 0xF4)"
    by blast
  then show ?thesis
  proof cases
    case A
    with assms two_bytes [OF A] show ?thesis
      by (simp add: b0_def [symmetric] Let_def RuneError_def split: list.splits)
  next
    case B
    then have nA: "\<not> (0xC2 \<le> b0 \<and> b0 \<le> 0xDF)" by simp
    define lo :: nat where "lo = (if b0 = 0xE0 then 0xA0 else 0x80)"
    define hi :: nat where "hi = (if b0 = 0xED then 0x9F else 0xBF)"
    have hi: "hi \<le> 0xBF" by (simp add: hi_def)
    have eq: "DecodeRune (c0 # rest) =
      (case rest of
         c1 # c2 # r \<Rightarrow>
           if lo \<le> byte c1 \<and> byte c1 \<le> hi \<and> contByte (byte c2)
           then ((b0 mod 0x10) * 0x1000 + (byte c1 mod 0x40) * 0x40 + byte c2 mod 0x40, 3)
           else (RuneError, 1)
       | _ \<Rightarrow> (RuneError, 1))"
      using assms B nA unfolding lo_def hi_def b0_def
      by (simp only: DecodeRune.simps Let_def if_False)
        (simp only: if_True simp_thms)
    show ?thesis
    proof (cases "\<exists>c1 c2 r. rest = c1 # c2 # r \<and> lo \<le> byte c1 \<and> byte c1 \<le> hi \<and> contByte (byte c2)")
      case True
      then obtain c1 c2 r where r: "rest = c1 # c2 # r" and c: "lo \<le> byte c1" "byte c1 \<le> hi"
        "contByte (byte c2)" by blast
      from c hi have "(if b0 = 0xE0 then 0xA0 else 0x80) \<le> byte c1" "byte c1 \<le> 0xBF"
        by (simp_all add: lo_def)
      from three_bytes [OF B this, of "byte c2"] c show ?thesis unfolding eq unfolding r by simp
    next
      case False
      then have "DecodeRune (c0 # rest) = (RuneError, 1)"
        unfolding eq by (auto split: list.splits)
      then show ?thesis by (simp only: fst_conv RuneError_def, simp?)
    qed
  next
    case C
    then have nA: "\<not> (0xC2 \<le> b0 \<and> b0 \<le> 0xDF)" and nB: "\<not> (0xE0 \<le> b0 \<and> b0 \<le> 0xEF)"
      by simp_all
    define lo :: nat where "lo = (if b0 = 0xF0 then 0x90 else 0x80)"
    define hi :: nat where "hi = (if b0 = 0xF4 then 0x8F else 0xBF)"
    have hi: "hi \<le> 0xBF" by (simp add: hi_def)
    have eq: "DecodeRune (c0 # rest) =
      (case rest of
         c1 # c2 # c3 # r \<Rightarrow>
           if lo \<le> byte c1 \<and> byte c1 \<le> hi \<and> contByte (byte c2) \<and> contByte (byte c3)
           then ((b0 mod 0x08) * 0x40000 + (byte c1 mod 0x40) * 0x1000
                    + (byte c2 mod 0x40) * 0x40 + byte c3 mod 0x40, 4)
           else (RuneError, 1)
       | _ \<Rightarrow> (RuneError, 1))"
      using assms C nA nB unfolding lo_def hi_def b0_def
      by (simp only: DecodeRune.simps Let_def if_False)
        (simp only: if_True simp_thms)
    show ?thesis
    proof (cases "\<exists>c1 c2 c3 r. rest = c1 # c2 # c3 # r \<and> lo \<le> byte c1 \<and> byte c1 \<le> hi
        \<and> contByte (byte c2) \<and> contByte (byte c3)")
      case True
      then obtain c1 c2 c3 r where r: "rest = c1 # c2 # c3 # r" and c: "lo \<le> byte c1"
        "byte c1 \<le> hi" "contByte (byte c2)" "contByte (byte c3)" by blast
      from c hi have "(if b0 = 0xF0 then 0x90 else 0x80) \<le> byte c1" "byte c1 \<le> 0xBF"
        by (simp_all add: lo_def)
      from four_bytes [OF C this, of "byte c2" "byte c3"] c show ?thesis unfolding eq unfolding r by simp
    next
      case False
      then have "DecodeRune (c0 # rest) = (RuneError, 1)"
        unfolding eq by (auto split: list.splits)
      then show ?thesis by (simp only: fst_conv RuneError_def, simp?)
    qed
  next
    case D
    have "DecodeRune (c0 # rest) = (RuneError, 1)"
      using assms D unfolding b0_def
      by (simp only: DecodeRune.simps Let_def if_False)
    then show ?thesis by (simp only: fst_conv RuneError_def, simp?)
  qed
qed

lemma DecodeRune_ascii:
  assumes "s \<noteq> []" and "fst (DecodeRune s) < 0x80"
  shows "snd (DecodeRune s) = 1" and "byte (hd s) = fst (DecodeRune s)"
proof -
  from assms(1) obtain c0 rest where s: "s = c0 # rest" by (cases s) auto
  from assms(2) DecodeRune_multi [of c0 rest] have "byte c0 < 0x80"
    unfolding s by (cases "byte c0 < 0x80") simp_all
  then show "snd (DecodeRune s) = 1" and "byte (hd s) = fst (DecodeRune s)"
    by (simp_all add: s)
qed

lemma byte_char: "byte c = n \<Longrightarrow> c = char_of n"
  by (auto simp: byte_def)


section \<open>What the lexer leaves alone\<close>

text \<open>
  The lexer reads and writes its own fields of the input. A panic of \<open>in.Error\<close> carries
  the input with one more error.
\<close>

definition lexerOnly :: "input \<Rightarrow> input \<Rightarrow> bool" where
  "lexerOnly inp inp' =
    (filename inp' = filename inp \<and> complete inp' = complete inp \<and> in_file inp' = in_file inp
     \<and> parseErrors inp' = parseErrors inp \<and> pre inp' = pre inp \<and> post inp' = post inp)"

definition raised :: "input \<Rightarrow> signal \<times> input \<Rightarrow> bool" where
  "raised inp p = (fst p = PanicParseErrors \<and> (\<exists>e. parseErrors (snd p) = parseErrors inp @ [e]))"

definition lexes :: "input \<Rightarrow> 'a lexed \<Rightarrow> bool" where
  "lexes inp r = (case r of Inl p \<Rightarrow> raised inp p | Inr (a, inp') \<Rightarrow> lexerOnly inp inp')"

lemma lexerOnly_refl [simp]: "lexerOnly inp inp"
  by (simp add: lexerOnly_def)

lemma lexerOnly_trans: "lexerOnly inp inp1 \<Longrightarrow> lexerOnly inp1 inp2 \<Longrightarrow> lexerOnly inp inp2"
  by (simp add: lexerOnly_def)

lemma lexes_Inr [simp]: "lexes inp (Inr (a, inp')) = lexerOnly inp inp'"
  by (simp add: lexes_def)

lemma lexes_Inl [simp]: "lexes inp (Inl p :: 'a lexed) = raised inp p"
  by (simp add: lexes_def)

lemma lexes_trans: "lexerOnly inp inp1 \<Longrightarrow> lexes inp1 r \<Longrightarrow> lexes inp r"
  by (auto simp: lexes_def lexerOnly_def raised_def split: sum.splits)

lemma lexes_bind:
  assumes "lexes inp m" and "\<And>a inp1. m = Inr (a, inp1) \<Longrightarrow> lexes inp1 (g a inp1)"
  shows "lexes inp (case m of Inl p \<Rightarrow> Inl p | Inr (a, inp1) \<Rightarrow> g a inp1)"
proof (cases m)
  case (Inl p)
  with assms(1) show ?thesis by simp
next
  case (Inr x)
  obtain a inp1 where x: "x = (a, inp1)" by (cases x)
  from assms(1) Inr x have "lexerOnly inp inp1" by simp
  from lexes_trans [OF this assms(2) [OF Inr [unfolded x]]] show ?thesis by (simp add: Inr x)
qed

lemma raised_inError [simp]: "raised inp (inError inp err)"
  by (simp add: raised_def inError_def)

lemma readRune_lexes: "lexes inp (readRune inp)"
  by (simp add: readRune_def lexerOnly_def)

lemma consumeComment_lexes: "lexes inp (consumeComment inp)"
proof (induction inp rule: consumeComment.induct)
  case (1 inp)
  show ?case
    by (subst consumeComment.simps)
      (auto intro!: lexes_bind readRune_lexes intro: "1.IH")
qed

lemma endToken_lexerOnly [simp]: "lexerOnly inp (endToken inp k)"
  by (simp add: endToken_def Let_def lexerOnly_def)

lemma startToken_lexerOnly [simp]: "lexerOnly inp (startToken inp)"
  by (simp add: startToken_def lexerOnly_def)


lemma lexerOnly_comments [simp]: "lexerOnly inp (inp'\<lparr>comments := cs\<rparr>) = lexerOnly inp inp'"
  by (simp add: lexerOnly_def)

lemma readComment_lexes: "lexes inp (readComment inp)"
  unfolding readComment_def Let_def
  by (rule lexes_trans [OF startToken_lexerOnly])
    (auto intro!: lexes_bind readRune_lexes consumeComment_lexes)

lemma skipSpaces_lexes: "lexes inp (skipSpaces inp)"
proof (induction inp rule: skipSpaces.induct)
  case (1 inp)
  show ?case
    by (subst skipSpaces.simps)
      (auto intro!: lexes_bind readRune_lexes readComment_lexes intro: "1.IH")
qed

lemma raised_stringEOF [simp]: "raised inp (stringEOF inp)"
  by (simp add: raised_def stringEOF_def inError_def)

lemma readString_lexes: "lexes inp (readString quote inp)"
proof (induction quote inp rule: readString.induct)
  case (1 quote inp)
  note eq = readString.simps [of quote inp]
  show ?case
  proof (cases "eof inp \<or> peekRune inp = 0x0A")
    case True
    then show ?thesis by (auto simp: eq)
  next
    case False
    then have ne: "\<not> eof inp" and nl: "peekRune inp \<noteq> 0x0A" by simp_all
    show ?thesis
    proof (cases "readRune inp")
      case (Inl p)
      with readRune_lexes [of inp] ne nl show ?thesis by (simp add: eq)
    next
      case (Inr x)
      obtain c inp1 where x: "x = (c, inp1)" by (cases x)
      note rr = Inr [unfolded x]
      from readRune_lexes [of inp] rr have lo: "lexerOnly inp inp1" by simp
      consider (q) "c = quote" | (esc) "c \<noteq> quote" "c = 0x5C \<and> quote \<noteq> 0x60"
        | (other) "c \<noteq> quote" "\<not> (c = 0x5C \<and> quote \<noteq> 0x60)"
        by blast
      then show ?thesis
      proof cases
        case q
        with ne nl rr lo show ?thesis by (simp add: eq)
      next
        case esc
        show ?thesis
        proof (cases "eof inp1")
          case True
          with ne nl rr esc have "readString quote inp = Inl (stringEOF inp1)"
            by (simp add: eq)
          with lexes_trans [OF lo, of "Inl (stringEOF inp1) :: unit lexed"] show ?thesis
            by simp
        next
          case ne1: False
          show ?thesis
          proof (cases "readRune inp1")
            case (Inl p)
            with ne nl rr esc ne1 have "readString quote inp = Inl p" by (simp add: eq)
            with lexes_trans [OF lo readRune_lexes [of inp1]] Inl show ?thesis by simp
          next
            case (Inr x2)
            obtain c2 inp2 where x2: "x2 = (c2, inp2)" by (cases x2)
            note r2 = Inr [unfolded x2]
            from readRune_lexes [of inp1] r2 have lo2: "lexerOnly inp1 inp2" by simp
            from ne nl rr esc ne1 r2 have "readString quote inp = readString quote inp2"
              by (simp add: eq)
            with lexes_trans [OF lexerOnly_trans [OF lo lo2]
                "1.IH"(1) [OF ne nl rr refl esc(1) esc(2) ne1 r2 refl]]
            show ?thesis by simp
          qed
        qed
      next
        case other
        with ne nl rr have "readString quote inp = readString quote inp1"
          by (auto simp: eq)
        with lexes_trans [OF lo "1.IH"(2) [OF ne nl rr refl other(1) other(2)]]
        show ?thesis by simp
      qed
    qed
  qed
qed

lemma readIdent_lexes: "lexes inp (readIdent IsPrint inp)"
proof (induction IsPrint inp rule: readIdent.induct)
  case (1 IsPrint inp)
  show ?case
    by (subst readIdent.simps)
      (auto intro!: lexes_bind readRune_lexes intro: "1.IH")
qed

lemma scanToken_lexes: "lexes inp (scanToken IsPrint inp)"
  unfolding scanToken_def Let_def scanPunct_def scanQuoted_def scanIdent_def
  by (rule lexes_trans [OF startToken_lexerOnly])
    (auto intro!: lexes_bind readRune_lexes readString_lexes readIdent_lexes)

lemma readToken_lexes: "lexes inp (readToken IsPrint inp)"
proof -
  have "readToken IsPrint inp =
    (case skipSpaces inp of Inl p \<Rightarrow> Inl p
     | Inr (b, inp1) \<Rightarrow> if b then Inr ((), inp1) else scanToken IsPrint inp1)"
    by (auto simp: readToken_def split: sum.splits bool.splits)
  then show ?thesis
    by (auto intro!: lexes_bind skipSpaces_lexes scanToken_lexes)
qed

lemma lex_lexes: "lexes inp (lex IsPrint inp)"
  unfolding lex_def by (auto intro!: lexes_bind readToken_lexes)

lemma lex_lexerOnly: "lex IsPrint inp = Inr (tok, inp') \<Longrightarrow> lexerOnly inp inp'"
  using lex_lexes [of inp IsPrint] by simp


subsection \<open>The text of a punctuation token\<close>

lemma readComment_kind:
  "readComment inp = Inr (u, inp') \<Longrightarrow> isComment (kind (token inp'))"
  by (auto simp: readComment_def Let_def isComment_def split: sum.splits if_splits)

lemma skipSpaces_kind:
  "skipSpaces inp = Inr (True, inp') \<Longrightarrow> isComment (kind (token inp'))"
proof (induction inp rule: skipSpaces.induct)
  case (1 inp)
  note eq = skipSpaces.simps [of inp]
  from "1.prems" have ne: "\<not> eof inp" by (auto simp: eq split: if_splits)
  show ?case
  proof (cases "peekRune inp = 0x20 \<or> peekRune inp = 0x09 \<or> peekRune inp = 0x0D")
    case True
    with "1.prems" ne obtain r inp1 where rr: "readRune inp = Inr (r, inp1)"
      and rest: "skipSpaces inp1 = Inr (True, inp')"
      by (auto simp: eq split: sum.splits)
    from "1.IH" [OF ne True rr refl rest] show ?thesis .
  next
    case False
    with "1.prems" ne obtain u where "readComment inp = Inr (u, inp')"
      by (auto simp: eq split: sum.splits if_splits)
    then show ?thesis by (rule readComment_kind)
  qed
qed

lemma scanToken_punct:
  assumes "scanToken IsPrint inp = Inr (u, inp')" and "0 \<le> kind (token inp')"
    and "kind (token inp') < 0x80"
  shows "tok_text (token inp') = [char_of (nat (kind (token inp')))]"
proof -
  define inp2 where "inp2 = startToken inp"
  define c where "c = peekRune inp2"
  have ts: "tokenStart inp2 = remaining inp2" by (simp add: inp2_def startToken_def)
  from assms(1,2) have ne: "remaining inp2 \<noteq> []"
    by (auto simp: scanToken_def Let_def inp2_def [symmetric] eof_def EOF_kind_def
        split: if_splits)
  from assms(1,2) ne have p: "isPunct c" and sp: "scanPunct c inp2 = Inr (u, inp')"
    by (auto simp: scanToken_def Let_def inp2_def [symmetric] c_def eof_def scanQuoted_def
        scanIdent_def STRING_def IDENT_def split: if_splits sum.splits)
  from sp obtain r inp3 where rr: "readRune inp2 = Inr (r, inp3)"
    and res: "inp' = endToken inp3 (int c)"
    by (auto simp: scanPunct_def split: sum.splits)
  from res have k: "kind (token inp') = int c" by simp
  with assms(3) have "c < 0x80" by simp
  with ne have "fst (DecodeRune (remaining inp2)) < 0x80" by (simp add: c_def peekRune_def)
  note d = DecodeRune_ascii [OF ne this]
  from rr ne d(1) have rem3: "remaining inp3 = drop 1 (remaining inp2)"
    and ts3: "tokenStart inp3 = remaining inp2"
    by (auto simp: readRune_def ts)
  from ne have "take (length (remaining inp2) - length (drop 1 (remaining inp2))) (remaining inp2)
      = [hd (remaining inp2)]"
    by (cases "remaining inp2") simp_all
  with res rem3 ts3 have "tok_text (token inp') = [hd (remaining inp2)]"
    by (simp add: endToken_def Let_def isComment_def COMMENT_def EOLCOMMENT_def)
  moreover from d(2) ne have "hd (remaining inp2) = char_of c"
    by (simp add: byte_char c_def peekRune_def)
  ultimately show ?thesis by (simp add: k)
qed

lemma readToken_punct:
  assumes "readToken IsPrint inp = Inr (u, inp')" and "0 \<le> kind (token inp')"
    and "kind (token inp') < 0x80"
  shows "tok_text (token inp') = [char_of (nat (kind (token inp')))]"
proof -
  from assms(1) obtain b inp1 where sk: "skipSpaces inp = Inr (b, inp1)"
    by (auto simp: readToken_def split: sum.splits)
  show ?thesis
  proof (cases b)
    case True
    with assms(1) sk have "inp' = inp1" by (simp add: readToken_def)
    with skipSpaces_kind [of inp inp1] sk True assms(2) show ?thesis
      by (simp add: isComment_def COMMENT_def EOLCOMMENT_def)
  next
    case False
    with assms(1) sk have "scanToken IsPrint inp1 = Inr (u, inp')" by (simp add: readToken_def)
    from scanToken_punct [OF this assms(2,3)] show ?thesis .
  qed
qed

lemma char_of_parens: "char_of (0x28::nat) = CHR 0x28" "char_of (0x29::nat) = CHR 0x29"
  by code_simp+

lemma lex_token: "lex IsPrint inp = Inr (tok, inp') \<Longrightarrow> tok = token inp"
  by (auto simp: lex_def split: sum.splits)

lemma lex_readToken: "lex IsPrint inp = Inr (tok, inp') \<Longrightarrow> readToken IsPrint inp = Inr ((), inp')"
  by (auto simp: lex_def split: sum.splits)

text \<open>
  C5. In the statement loop, when the token read is an opening parenthesis, the next one
  a closing parenthesis and the one after that does not end the line, the loop goes on
  with the two literal tokens \<open>(\<close> and \<open>)\<close> appended to the tokens of the line; no
  statement, so no block, has been added to the file. The input \<open>inp\<close> holds a token
  that the lexer has read.
\<close>

theorem parseStmt_loop_paren_pair:
  assumes "readToken IsPrint inp0 = Inr (u, inp)"
    and "lex IsPrint inp = Inr (tok, inp1)" and "kind tok = 0x28"
    and "peek inp1 = 0x29"
    and "lex IsPrint inp1 = Inr (rparen, inp2)" and "\<not> isEOL (peek inp2)"
  shows "parseStmt_loop IsPrint start endp tokens inp =
      parseStmt_loop IsPrint start endp (tokens @ [''('', '')'']) inp2
    \<and> in_file inp2 = in_file inp"
proof -
  have tok: "tok = token inp" and rp: "rparen = token inp1"
    using assms(2,5) by (simp_all add: lex_token)
  from readToken_punct [OF assms(1)] assms(3) tok have t1: "tok_text tok = ''(''"
    by (simp add: char_of_parens)
  from readToken_punct [OF lex_readToken [OF assms(2)]] assms(4) rp
  have t2: "tok_text rparen = '')''"
    by (simp add: peek_def char_of_parens)
  have ne: "\<not> isEOL (kind tok)" "\<not> isEOL (peek inp1)"
    using assms(3,4) by (simp_all add: isEOL_def EOF_kind_def EOLCOMMENT_def)
  from assms ne t1 t2 have "parseStmt_loop IsPrint start endp tokens inp =
      parseStmt_loop IsPrint start endp (tokens @ [''('', '')'']) inp2"
    by (subst parseStmt_loop.simps) simp
  moreover from lex_lexerOnly [OF assms(2)] lex_lexerOnly [OF assms(5)]
  have "in_file inp2 = in_file inp" by (simp add: lexerOnly_def)
  ultimately show ?thesis by simp
qed

end
